theory Spec2Isabelle
  imports Main "HOL-Library.Word" "HOL-Library.Sublist"
begin

section \<open>JavaScript strings\<close>

text \<open>
  A JavaScript string is a sequence of UTF-16 code units: \<open>length\<close>, \<open>substring\<close>,
  \<open>slice\<close>, \<open>indexOf\<close> and the regular expressions of the sources (none carries the
  \<open>u\<close> flag) all count code units. The string literals of the sources are ASCII and are
  written through \<open>js\<close>.
\<close>

type_synonym jschar = "16 word"

type_synonym jsstring = "jschar list"

type_synonym byte = "8 word"

text \<open>A string literal of the sources, as code units.\<close>

definition js :: "string \<Rightarrow> jsstring" where
  "js s = map (\<lambda>c. of_nat (of_char c)) s"

text \<open>\<open>s.substring(0, n)\<close> for a literal \<open>n \<ge> 0\<close>: the first \<open>n\<close> code units, all of
  \<open>s\<close> when it is shorter.\<close>

definition substring0 :: "jsstring \<Rightarrow> nat \<Rightarrow> jsstring" where
  "substring0 s n = take n s"

text \<open>\<open>s.slice(start, end)\<close>: a negative index counts from the end, both indices are
  clamped to the string, and an empty string results when the end is not after the start.\<close>

definition slice :: "jsstring \<Rightarrow> int \<Rightarrow> int \<Rightarrow> jsstring" where
  "slice s start end =
     (let len = int (length s);
          from = (if start < 0 then max (len + start) 0 else min start len);
          to = (if end < 0 then max (len + end) 0 else min end len)
      in take (nat (max (to - from) 0)) (drop (nat from) s))"

text \<open>\<open>s.indexOf(c)\<close> and \<open>s.lastIndexOf(c)\<close> for a one-character pattern: the index of
  the first (last) occurrence, \<open>-1\<close> when there is none.\<close>

fun indexOf :: "jsstring \<Rightarrow> jschar \<Rightarrow> int" where
  "indexOf [] c = -1"
| "indexOf (x # xs) c =
     (if x = c then 0 else (let i = indexOf xs c in if i < 0 then -1 else i + 1))"

fun lastIndexOf :: "jsstring \<Rightarrow> jschar \<Rightarrow> int" where
  "lastIndexOf [] c = -1"
| "lastIndexOf (x # xs) c =
     (let i = lastIndexOf xs c in if 0 \<le> i then i + 1 else if x = c then 0 else -1)"

section \<open>The vector-store id: \<open>Buffer.from(url).toString('base64').slice(0, 64)\<close>\<close>

text \<open>
  \<open>Buffer.from(s)\<close> encodes the string as UTF-8: a surrogate pair is one code point of
  four bytes, a lone surrogate becomes U+FFFD (\<open>EF BF BD\<close>).
\<close>

fun utf8 :: "jsstring \<Rightarrow> byte list" where
  "utf8 [] = []"
| "utf8 (c # cs) =
     (if unat c < 0x80 then [of_nat (unat c)] @ utf8 cs
      else if unat c < 0x800 then
        [of_nat (0xC0 + unat c div 64), of_nat (0x80 + unat c mod 64)] @ utf8 cs
      else if 0xD800 \<le> unat c \<and> unat c < 0xDC00 then
        (case cs of
           [] \<Rightarrow> [0xEF, 0xBF, 0xBD]
         | d # ds \<Rightarrow>
             if 0xDC00 \<le> unat d \<and> unat d < 0xE000 then
               (let cp = 0x10000 + (unat c - 0xD800) * 1024 + (unat d - 0xDC00) in
                [of_nat (0xF0 + cp div 262144), of_nat (0x80 + (cp div 4096) mod 64),
                 of_nat (0x80 + (cp div 64) mod 64), of_nat (0x80 + cp mod 64)] @ utf8 ds)
             else [0xEF, 0xBF, 0xBD] @ utf8 cs)
      else if 0xDC00 \<le> unat c \<and> unat c < 0xE000 then [0xEF, 0xBF, 0xBD] @ utf8 cs
      else [of_nat (0xE0 + unat c div 4096), of_nat (0x80 + (unat c div 64) mod 64),
            of_nat (0x80 + unat c mod 64)] @ utf8 cs)"

text \<open>\<open>toString('base64')\<close>: three bytes give four characters of the standard alphabet,
  a last group of one or two bytes is padded with \<open>=\<close> (code unit \<open>0x3D\<close>).\<close>

definition base64Alphabet :: "string" where
  "base64Alphabet = ''ABCDEFGHIJKLMNOPQRSTUVWXYZabcdefghijklmnopqrstuvwxyz0123456789+/''"

definition b64 :: "nat \<Rightarrow> jschar" where
  "b64 n = of_nat (of_char (base64Alphabet ! n))"

fun base64 :: "byte list \<Rightarrow> jsstring" where
  "base64 [] = []"
| "base64 [a] = [b64 (unat a div 4), b64 (unat a mod 4 * 16), 0x3D, 0x3D]"
| "base64 [a, b] =
     [b64 (unat a div 4), b64 (unat a mod 4 * 16 + unat b div 16),
      b64 (unat b mod 16 * 4), 0x3D]"
| "base64 (a # b # c # bs) =
     [b64 (unat a div 4), b64 (unat a mod 4 * 16 + unat b div 16),
      b64 (unat b mod 16 * 4 + unat c div 64), b64 (unat c mod 64)] @ base64 bs"

text \<open>\<open>storeArticle\<close> (on \<open>article.url\<close>) and the ingestion listener (on the message's
  \<open>url\<close>) compute the id by the same expression.\<close>

definition articleId :: "jsstring \<Rightarrow> jsstring" where
  "articleId u = slice (base64 (utf8 u)) 0 64"

section \<open>Regular expressions\<close>

text \<open>
  The two regular expressions of the sources are sequences of literal characters, an
  optional character and greedy runs over a character class, two of them capturing. The
  matcher tries the lengths of a greedy run from the longest down, as a backtracking
  engine does, and the search takes the leftmost position at which the pattern matches.
\<close>

text \<open>The class \<open>\s\<close> of the regular expressions, which is also what \<open>trim\<close> removes: the
  white space and the line terminators of ECMAScript.\<close>

definition isSpace :: "jschar \<Rightarrow> bool" where
  "isSpace c =
     (c \<in> set [0x09, 0x0A, 0x0B, 0x0C, 0x0D, 0x20, 0xA0, 0x1680, 0x2028, 0x2029, 0x202F,
                0x205F, 0x3000, 0xFEFF]
      \<or> (0x2000 \<le> c \<and> c \<le> 0x200A))"

text \<open>The classes \<open>[^c]\<close> and \<open>[^\s]\<close>.\<close>

datatype cls = NotChar jschar | NotSpace

text \<open>A literal character, an optional character \<open>c?\<close>, a greedy run \<open>[...]+\<close> and a
  capturing greedy run \<open>([...]+)\<close>.\<close>

datatype item = Lit jschar | Opt jschar | Plus cls | Cap cls

fun inCls :: "cls \<Rightarrow> jschar \<Rightarrow> bool" where
  "inCls (NotChar c) x = (x \<noteq> c)"
| "inCls NotSpace x = (\<not> isSpace x)"

fun firstSome :: "'a option list \<Rightarrow> 'a option" where
  "firstSome [] = None"
| "firstSome (x # xs) = (case x of Some y \<Rightarrow> Some y | None \<Rightarrow> firstSome xs)"

text \<open>The lengths that a greedy run tries: from the longest run of the class down to 1.\<close>

fun countdown :: "nat \<Rightarrow> nat list" where
  "countdown 0 = []"
| "countdown (Suc n) = Suc n # countdown n"

definition greedy :: "cls \<Rightarrow> jsstring \<Rightarrow> nat list" where
  "greedy k s = countdown (length (takeWhile (inCls k) s))"

text \<open>The match of a pattern at the start of a text: the captured groups, and the text
  left after the match.\<close>

fun matchItems :: "item list \<Rightarrow> jsstring \<Rightarrow> (jsstring list \<times> jsstring) option" where
  "matchItems [] s = Some ([], s)"
| "matchItems (Lit c # its) s =
     (case s of [] \<Rightarrow> None | x # xs \<Rightarrow> if x = c then matchItems its xs else None)"
| "matchItems (Opt c # its) s =
     (case (case s of [] \<Rightarrow> None | x # xs \<Rightarrow> if x = c then matchItems its xs else None) of
        Some r \<Rightarrow> Some r
      | None \<Rightarrow> matchItems its s)"
| "matchItems (Plus k # its) s =
     firstSome (map (\<lambda>n. matchItems its (drop n s)) (greedy k s))"
| "matchItems (Cap k # its) s =
     firstSome (map (\<lambda>n. case matchItems its (drop n s) of
                             None \<Rightarrow> None
                           | Some (caps, rest) \<Rightarrow> Some (take n s # caps, rest))
                    (greedy k s))"

text \<open>The leftmost match in a text: its offset, its groups and the text left after it.\<close>

fun regexSearch :: "item list \<Rightarrow> jsstring \<Rightarrow> (nat \<times> jsstring list \<times> jsstring) option" where
  "regexSearch its [] =
     (case matchItems its [] of
        Some (caps, rest) \<Rightarrow> Some (0, caps, rest)
      | None \<Rightarrow> None)"
| "regexSearch its (x # xs) =
     (case matchItems its (x # xs) of
        Some (caps, rest) \<Rightarrow> Some (0, caps, rest)
      | None \<Rightarrow>
          (case regexSearch its xs of
             None \<Rightarrow> None
           | Some (k, caps, rest) \<Rightarrow> Some (Suc k, caps, rest)))"

text \<open>A match object: \<open>match[0]\<close> and the groups \<open>match[1]\<close>, \<open>match[2]\<close>.\<close>

record regexMatch =
  matched :: jsstring
  groups :: "jsstring list"

text \<open>\<open>regex.exec(s)\<close> for a regular expression with the \<open>g\<close> flag, given its \<open>lastIndex\<close>:
  the match found from there on, if any, and the new \<open>lastIndex\<close>, which is the end of the
  match, or 0 after a failure.\<close>

definition regexExec :: "item list \<Rightarrow> jsstring \<Rightarrow> nat \<Rightarrow> regexMatch option \<times> nat" where
  "regexExec its s lastIndex =
     (if length s < lastIndex then (None, 0)
      else case regexSearch its (drop lastIndex s) of
             None \<Rightarrow> (None, 0)
           | Some (k, caps, rest) \<Rightarrow>
               (Some \<lparr>matched = take (length s - lastIndex - k - length rest) (drop (lastIndex + k) s),
                      groups = caps\<rparr>,
                length s - length rest))"

text \<open>\<open>s.match(regex)\<close> for a regular expression without the \<open>g\<close> flag.\<close>

definition stringMatch :: "jsstring \<Rightarrow> item list \<Rightarrow> regexMatch option" where
  "stringMatch s its = fst (regexExec its s 0)"

text \<open>\<open>/https?:\/\/[^\s]+/\<close> (server.ts, line 30).\<close>

definition urlRegex :: "item list" where
  "urlRegex = map Lit (js ''http'') @ [Opt 0x73] @ map Lit (js ''://'') @ [Plus NotSpace]"

text \<open>\<open>/\[([^\]]+)\]\(([^)]+)\)/g\<close> (second unnamed source, \<open>generateResponse\<close>).\<close>

definition sourceRegex :: "item list" where
  "sourceRegex = [Lit 0x5B, Cap (NotChar 0x5D), Lit 0x5D, Lit 0x28, Cap (NotChar 0x29), Lit 0x29]"

section \<open>Values, errors and the external services\<close>

text \<open>
  An article as the program handles it at run time: \<open>JSON.parse\<close> and the metadata of a
  match are cast to \<open>Article\<close> without a check, so each of the four members is a string or
  is missing (\<open>None\<close>, JavaScript's \<open>undefined\<close>). The services the program calls (page
  fetch and HTML selection, text generation, embedding, \<open>JSON.parse\<close>, the vector index,
  the clock) are the fields of an environment; each call returns a value or the error it
  throws. The world is what the program changes: the vector store and the console.
  Members of another type than string lie outside the declared type \<open>Article\<close> and are
  not modelled.
\<close>

text \<open>A line feed, and \<open>n\<close> spaces (the indentation inside the template literals).\<close>

definition nl :: jsstring where
  "nl = [0x0A]"

definition sp :: "nat \<Rightarrow> jsstring" where
  "sp n = replicate n 0x20"

text \<open>\<open>s.trim()\<close> and \<open>xs.join(sep)\<close>.\<close>

definition trim :: "jsstring \<Rightarrow> jsstring" where
  "trim s = rev (dropWhile isSpace (rev (dropWhile isSpace s)))"

fun joinWith :: "jsstring \<Rightarrow> jsstring list \<Rightarrow> jsstring" where
  "joinWith sep [] = []"
| "joinWith sep [x] = x"
| "joinWith sep (x # y # ys) = x @ sep @ joinWith sep (y # ys)"

text \<open>A thrown value: an \<open>Error\<close>, a \<open>SyntaxError\<close> or a \<open>TypeError\<close> with its message,
  or a value that is no \<open>Error\<close>.\<close>

datatype error = Error jsstring | SyntaxError jsstring | TypeError jsstring | NonError jsstring

fun instanceofError :: "error \<Rightarrow> bool" where
  "instanceofError (NonError v) = False"
| "instanceofError e = True"

fun message :: "error \<Rightarrow> jsstring" where
  "message (Error m) = m"
| "message (SyntaxError m) = m"
| "message (TypeError m) = m"
| "message (NonError v) = v"

text \<open>Calls in sequence, the first error ending the sequence; \<open>xs.map(f)\<close> for a callback
  that may throw.\<close>

definition bindE :: "error + 'a \<Rightarrow> ('a \<Rightarrow> error + 'b) \<Rightarrow> error + 'b" where
  "bindE m f = (case m of Inl e \<Rightarrow> Inl e | Inr x \<Rightarrow> f x)"

fun mapE :: "('a \<Rightarrow> error + 'b) \<Rightarrow> 'a list \<Rightarrow> error + 'b list" where
  "mapE f [] = Inr []"
| "mapE f (x # xs) = bindE (f x) (\<lambda>y. bindE (mapE f xs) (\<lambda>ys. Inr (y # ys)))"

record article =
  title :: "jsstring option"
  content :: "jsstring option"
  url :: "jsstring option"
  date :: "jsstring option"

text \<open>\<open>${v}\<close> inside a template literal; \<open>v.substring(0, n)\<close> and \<open>v.length\<close>, which throw
  a \<open>TypeError\<close> when \<open>v\<close> is undefined.\<close>

definition toStr :: "jsstring option \<Rightarrow> jsstring" where
  "toStr v = (case v of None \<Rightarrow> js ''undefined'' | Some s \<Rightarrow> s)"

definition substringOf :: "jsstring option \<Rightarrow> nat \<Rightarrow> error + jsstring" where
  "substringOf v n =
     (case v of
        None \<Rightarrow> Inl (TypeError (js ''Cannot read properties of undefined (reading 'substring')''))
      | Some s \<Rightarrow> Inr (substring0 s n))"

definition lengthOf :: "jsstring option \<Rightarrow> error + nat" where
  "lengthOf v =
     (case v of
        None \<Rightarrow> Inl (TypeError (js ''Cannot read properties of undefined (reading 'length')''))
      | Some s \<Rightarrow> Inr (length s))"

text \<open>The values handed to \<open>res.json\<close> and to the console: undefined, strings, numbers,
  arrays, and objects as the list of their properties.\<close>

datatype jsval = JUndefined | JStr jsstring | JNum nat | JArr "jsval list"
  | JObj "(string \<times> jsval) list"

definition optVal :: "jsstring option \<Rightarrow> jsval" where
  "optVal v = (case v of None \<Rightarrow> JUndefined | Some s \<Rightarrow> JStr s)"

text \<open>A JSON value, and \<open>JSON.stringify(v)\<close> as the JSON value that the text it returns
  denotes: a property whose value is undefined is left out of an object, an undefined
  element of an array becomes \<open>null\<close>, and \<open>JSON.stringify(undefined)\<close> is no text at all.\<close>

datatype json = JsonNull | JsonString jsstring | JsonNumber nat | JsonArray "json list"
  | JsonObject "(string \<times> json) list"

fun jsonStringify :: "jsval \<Rightarrow> json option"
  and stringifyElements :: "jsval list \<Rightarrow> json list"
  and stringifyMembers :: "(string \<times> jsval) list \<Rightarrow> (string \<times> json) list" where
  "jsonStringify JUndefined = None"
| "jsonStringify (JStr s) = Some (JsonString s)"
| "jsonStringify (JNum n) = Some (JsonNumber n)"
| "jsonStringify (JArr vs) = Some (JsonArray (stringifyElements vs))"
| "jsonStringify (JObj ms) = Some (JsonObject (stringifyMembers ms))"
| "stringifyElements [] = []"
| "stringifyElements (v # vs) =
     (case jsonStringify v of None \<Rightarrow> JsonNull | Some j \<Rightarrow> j) # stringifyElements vs"
| "stringifyMembers [] = []"
| "stringifyMembers ((k, v) # ms) =
     (case jsonStringify v of None \<Rightarrow> stringifyMembers ms | Some j \<Rightarrow> (k, j) # stringifyMembers ms)"

text \<open>One call of \<open>console.log\<close>, \<open>console.warn\<close> or \<open>console.error\<close>, with its
  arguments.\<close>

datatype logArg = Val jsval | Thrown error

datatype logLine = ConsoleLog "logArg list" | ConsoleWarn "logArg list"
  | ConsoleError "logArg list"

text \<open>A record of the vector index, \<open>{id, values, metadata}\<close>; the index maps ids to
  records.\<close>

record 'v vector =
  vid :: jsstring
  vvalues :: 'v
  metadata :: "article option"

type_synonym 'v vstore = "jsstring \<rightharpoonup> 'v vector"

record 'v world =
  store :: "'v vstore"
  console :: "logLine list"

text \<open>The world after one more console line, and after a change of the store.\<close>

definition logged :: "logLine \<Rightarrow> 'v world \<Rightarrow> 'v world" where
  "logged l w = w\<lparr>console := console w @ [l]\<rparr>"

definition stored :: "'v vstore \<Rightarrow> 'v world \<Rightarrow> 'v world" where
  "stored st w = w\<lparr>store := st\<rparr>"

text \<open>The response of \<open>generateContent\<close>: what \<open>response.text()\<close> returns or throws.\<close>

type_synonym response = "error + jsstring"

text \<open>\<open>fetchText\<close> is \<open>fetch(url).then(res => res.text())\<close>; \<open>h1First\<close>, \<open>h1All\<close>,
  \<open>titleText\<close>, \<open>paragraphs\<close> and \<open>bodyText\<close> are the texts of \<open>$('h1').first()\<close>,
  \<open>$('h1')\<close>, \<open>$('title')\<close>, of each element of \<open>$('p')\<close> and of \<open>$('body')\<close> in the
  loaded page; \<open>generateContent\<close> takes the model name and the prompt; \<open>embedContent\<close>
  returns \<open>embedding.values\<close>; \<open>jsonParse\<close> is \<open>JSON.parse\<close>, its result read as an
  \<open>Article\<close>; \<open>queryIndex\<close> is \<open>index.query({vector, topK, includeMetadata: true})\<close> and
  returns \<open>matches\<close>; \<open>upsertFault\<close> is the error with which \<open>index.upsert\<close> rejects a
  record, if it does; \<open>today\<close> is \<open>new Date().toISOString().split('T')[0]\<close>.\<close>

record 'v env =
  fetchText :: "jsstring \<Rightarrow> error + jsstring"
  h1First :: "jsstring \<Rightarrow> jsstring"
  h1All :: "jsstring \<Rightarrow> jsstring"
  titleText :: "jsstring \<Rightarrow> jsstring"
  paragraphs :: "jsstring \<Rightarrow> jsstring list"
  bodyText :: "jsstring \<Rightarrow> jsstring"
  generateContent :: "jsstring \<Rightarrow> jsstring \<Rightarrow> error + response"
  embedContent :: "jsstring \<Rightarrow> error + 'v"
  jsonParse :: "jsstring \<Rightarrow> error + article"
  queryIndex :: "'v vstore \<Rightarrow> 'v \<Rightarrow> nat \<Rightarrow> error + 'v vector list"
  upsertFault :: "'v vector \<Rightarrow> error option"
  today :: jsstring

text \<open>\<open>index.upsert([v])\<close>: the record is inserted, or overwrites the record of the same
  id, unless the call fails.\<close>

definition upsert :: "'v env \<Rightarrow> 'v vstore \<Rightarrow> 'v vector \<Rightarrow> error + 'v vstore" where
  "upsert env st v =
     (case upsertFault env v of Some e \<Rightarrow> Inl e | None \<Rightarrow> Inr (st(vid v \<mapsto> v)))"

text \<open>\<open>d || new Date().toISOString().split('T')[0]\<close>: an undefined or empty \<open>d\<close> is falsy.\<close>

definition orToday :: "'v env \<Rightarrow> jsstring option \<Rightarrow> jsstring" where
  "orToday env d = (case d of None \<Rightarrow> today env | Some s \<Rightarrow> if s = [] then today env else s)"

text \<open>The lines \<open>jsonStart = text.indexOf('{')\<close>, \<open>jsonEnd = text.lastIndexOf('}') + 1\<close>,
  \<open>JSON.parse(text.slice(jsonStart, jsonEnd))\<close>, which \<open>processArticle\<close> of server.ts
  (57-59), \<open>processArticle\<close> of the second unnamed source and the ingestion listener
  (consumer.ts 80-82) share.\<close>

definition parseBetweenBraces :: "'v env \<Rightarrow> jsstring \<Rightarrow> error + article" where
  "parseBetweenBraces env text =
     (let jsonStart = indexOf text 0x7B;
          jsonEnd = lastIndexOf text 0x7D + 1
      in jsonParse env (slice text jsonStart jsonEnd))"

text \<open>\<open>catch (error) { console.error(label, error); throw error; }\<close> and the variant
  that throws a new \<open>Error\<close> in place of the caught one.\<close>

definition rethrow :: "jsstring \<Rightarrow> (error + 'a) \<times> 'v world \<Rightarrow> (error + 'a) \<times> 'v world" where
  "rethrow label r =
     (case r of
        (Inl e, w) \<Rightarrow> (Inl e, logged (ConsoleError [Val (JStr label), Thrown e]) w)
      | (Inr x, w) \<Rightarrow> (Inr x, w))"

definition rethrowAs ::
  "jsstring \<Rightarrow> jsstring \<Rightarrow> (error + 'a) \<times> 'v world \<Rightarrow> (error + 'a) \<times> 'v world" where
  "rethrowAs label msg r =
     (case r of
        (Inl e, w) \<Rightarrow> (Inl (Error msg), logged (ConsoleError [Val (JStr label), Thrown e]) w)
      | (Inr x, w) \<Rightarrow> (Inr x, w))"

text \<open>Calls in sequence that also change the world.\<close>

definition bindW ::
  "(error + 'a) \<times> 'v world \<Rightarrow> ('a \<Rightarrow> 'v world \<Rightarrow> (error + 'b) \<times> 'v world) \<Rightarrow>
   (error + 'b) \<times> 'v world" where
  "bindW r f = (case r of (Inl e, w) \<Rightarrow> (Inl e, w) | (Inr x, w) \<Rightarrow> f x w)"

section \<open>The HTTP endpoint (src/api/server.ts)\<close>

text \<open>server.ts, lines 29-33.\<close>

definition extractUrlFromQuery :: "jsstring \<Rightarrow> jsstring option" where
  "extractUrlFromQuery q =
     (case stringMatch q urlRegex of None \<Rightarrow> None | Some m \<Rightarrow> Some (matched m))"

text \<open>The prompt of \<open>processArticle\<close> (server.ts, lines 48-53).\<close>

definition extractionPrompt :: "jsstring \<Rightarrow> jsstring \<Rightarrow> jsstring \<Rightarrow> jsstring" where
  \<open>extractionPrompt t c u =
     js ''Extract JSON from this article:'' @ nl @ js ''Title: '' @ t @ nl @
     js ''Content: '' @ substring0 c 10000 @ nl @ nl @ js ''Output format: {'' @ nl @
     sp 6 @ js ''"title": "string",'' @ nl @
     sp 6 @ js ''"content": "string",'' @ nl @
     sp 6 @ js ''"url": "'' @ u @ js ''",'' @ nl @
     sp 6 @ js ''"date": "YYYY-MM-DD"'' @ nl @
     sp 4 @ js ''}''\<close>

text \<open>server.ts, lines 36-64.\<close>

definition processArticle :: "'v env \<Rightarrow> 'v world \<Rightarrow> jsstring \<Rightarrow> (error + article) \<times> 'v world" where
  "processArticle env w u =
     rethrow (js ''Failed to process article '' @ u @ js '':'')
       (bindE (fetchText env u) (\<lambda>html.
          if html = [] then Inl (Error (js ''Failed to fetch valid HTML content.''))
          else
            let t = trim (h1First env html);
                c = joinWith (nl @ nl) (map trim (paragraphs env html))
            in bindE (generateContent env (js ''gemini-1.5-pro'') (extractionPrompt t c u))
                 (\<lambda>result. bindE result (\<lambda>text. parseBetweenBraces env text))),
        w)"

text \<open>The callback of \<open>results.matches.map\<close>: \<open>match.metadata?.title\<close> and so on.\<close>

definition mapMatch :: "'v vector \<Rightarrow> article" where
  "mapMatch m =
     \<lparr>title = Option.bind (metadata m) title,
      content = Option.bind (metadata m) content,
      url = Option.bind (metadata m) url,
      date = Option.bind (metadata m) date\<rparr>"

text \<open>server.ts, lines 67-90; both unnamed article processors hold the same function.\<close>

definition searchArticles ::
  "'v env \<Rightarrow> 'v world \<Rightarrow> jsstring \<Rightarrow> nat \<Rightarrow> (error + article list) \<times> 'v world" where
  "searchArticles env w q topK =
     rethrow (js ''Search failed:'')
       (bindE (embedContent env q) (\<lambda>embedding.
          bindE (queryIndex env (store w) embedding topK) (\<lambda>matches.
            Inr (map mapMatch matches))),
        w)"

text \<open>\<open>req.body.query\<close>: missing, a value that is no string, or a string.\<close>

datatype jsquery = QMissing | QOther | QString jsstring

text \<open>The status set on the response and the value handed to \<open>res.json\<close>, before it is
  serialised.\<close>

record httpResponse =
  status :: nat
  body :: jsval

text \<open>\<open>{title: a.title, url: a.url, date: a.date}\<close>.\<close>

definition sourceOf :: "article \<Rightarrow> jsval" where
  "sourceOf a =
     JObj [(''title'', optVal (title a)), (''url'', optVal (url a)), (''date'', optVal (date a))]"

text \<open>One element of the context, and the prompt around the context (server.ts,
  lines 120-129).\<close>

definition contextLine :: "article \<Rightarrow> error + jsstring" where
  "contextLine a =
     bindE (substringOf (content a) 1000) (\<lambda>c.
       Inr (js ''Title: '' @ toStr (title a) @ nl @ js ''Content: '' @ c))"

definition answerPrompt :: "jsstring \<Rightarrow> jsstring \<Rightarrow> jsstring" where
  "answerPrompt q ctx =
     js ''Answer this query: '' @ q @ nl @ nl @ js ''Context:'' @ nl @ ctx @ nl @ nl @
     js ''Be concise and cite sources.''"

text \<open>The \<open>catch\<close> block of the handler (server.ts, lines 143-149).\<close>

definition failed500 :: "error \<Rightarrow> 'v world \<Rightarrow> httpResponse \<times> 'v world" where
  "failed500 e w =
     (\<lparr>status = 500,
       body = JObj [(''error'', JStr (js ''Processing failed'')),
                    (''details'',
                     JStr (if instanceofError e then message e else js ''Unknown error''))]\<rparr>,
      logged (ConsoleError [Val (JStr (js ''API Error:'')), Thrown e]) w)"

text \<open>server.ts, lines 93-150.\<close>

definition agentHandler :: "'v env \<Rightarrow> 'v world \<Rightarrow> jsquery \<Rightarrow> httpResponse \<times> 'v world" where
  "agentHandler env w query =
     (case query of
        QString q \<Rightarrow>
          if q = [] then
            (\<lparr>status = 400,
              body = JObj [(''error'', JStr (js ''Query is required and must be a string''))]\<rparr>, w)
          else
            (case extractUrlFromQuery q of
               Some u \<Rightarrow>
                 (case processArticle env w u of
                    (Inl e, w1) \<Rightarrow> failed500 e w1
                  | (Inr a, w1) \<Rightarrow>
                      (case bindE (generateContent env (js ''gemini-1.5-pro'')
                                     (js ''Summarize this article in 3-4 sentences:'' @ nl @ nl @
                                      toStr (content a)))
                              (\<lambda>response. response)
                       of
                         Inl e \<Rightarrow> failed500 e w1
                       | Inr text \<Rightarrow>
                           (\<lparr>status = 200,
                             body = JObj [(''answer'', JStr text),
                                          (''sources'', JArr [sourceOf a])]\<rparr>, w1)))
             | None \<Rightarrow>
                 (case searchArticles env w q 3 of
                    (Inl e, w1) \<Rightarrow> failed500 e w1
                  | (Inr relevantArticles, w1) \<Rightarrow>
                      (case bindE (mapE contextLine relevantArticles) (\<lambda>parts.
                              bindE (generateContent env (js ''gemini-1.5-pro'')
                                       (answerPrompt q (joinWith (nl @ nl) parts)))
                                (\<lambda>response. response))
                       of
                         Inl e \<Rightarrow> failed500 e w1
                       | Inr text \<Rightarrow>
                           (\<lparr>status = 200,
                             body = JObj [(''answer'', JStr text),
                                          (''sources'', JArr (map sourceOf relevantArticles))]\<rparr>,
                            w1))))
      | _ \<Rightarrow>
          (\<lparr>status = 400,
            body = JObj [(''error'', JStr (js ''Query is required and must be a string''))]\<rparr>, w))"

text \<open>The route \<open>POST /agent\<close> (server.ts, lines 153-155) as its client sees it:
  \<open>res.json(v)\<close> sends the text \<open>JSON.stringify(v)\<close>, so the body received is the JSON
  value of the value that the handler hands to \<open>res.json\<close>.\<close>

record sentResponse =
  sentStatus :: nat
  sentBody :: "json option"

definition postAgent :: "'v env \<Rightarrow> 'v world \<Rightarrow> jsquery \<Rightarrow> sentResponse \<times> 'v world" where
  "postAgent env w query =
     (case agentHandler env w query of
        (r, w') \<Rightarrow> (\<lparr>sentStatus = status r, sentBody = jsonStringify (body r)\<rparr>, w'))"

section \<open>The citation loop of the Answer Composer\<close>

text \<open>
  The loop \<open>while ((match = sourceRegex.exec(answer)) !== null)\<close> ends because every match
  of the citation pattern moves \<open>lastIndex\<close> forward; the facts about the matcher that show
  it come first.
\<close>

lemma firstSome_backtrack:
  "(\<And>j. 1 \<le> j \<Longrightarrow> j < n \<Longrightarrow> f j = None) \<Longrightarrow>
   firstSome (map f (countdown n)) = (if n = 0 then None else f n)"
proof (induction n)
  case 0
  show ?case by simp
next
  case (Suc n)
  have ih: "firstSome (map f (countdown n)) = (if n = 0 then None else f n)"
    using Suc.prems by (intro Suc.IH) simp_all
  have "n \<noteq> 0 \<Longrightarrow> f n = None" using Suc.prems [of n] by simp
  with ih have "firstSome (map f (countdown n)) = None" by simp
  then show ?case by (simp split: option.split)
qed

lemma drop_in_run:
  assumes "j < length (takeWhile P s)"
  shows "\<exists>x r. drop j s = x # r \<and> P x"
proof -
  have j: "j < length s" using assms length_takeWhile_le [of P s] by simp
  have "P (s ! j)" using assms by (metis nth_mem set_takeWhileD takeWhile_nth)
  with Cons_nth_drop_Suc [OF j] show ?thesis by metis
qed

lemma drop_run: "drop (length (takeWhile P s)) s = dropWhile P s"
  by (simp add: dropWhile_eq_drop)

lemma take_run: "take (length (takeWhile P s)) s = takeWhile P s"
  by (simp add: takeWhile_eq_take [symmetric])

text \<open>A capturing run of characters other than \<open>c\<close> that is followed by the literal
  \<open>c\<close> can only end at the first \<open>c\<close>: giving characters back never helps.\<close>

lemma matchItems_Cap_Lit:
  "matchItems (Cap (NotChar c) # Lit c # its) s =
     (if takeWhile (\<lambda>x. x \<noteq> c) s = [] then None
      else case dropWhile (\<lambda>x. x \<noteq> c) s of
             [] \<Rightarrow> None
           | x # r \<Rightarrow> (case matchItems its r of
                         None \<Rightarrow> None
                       | Some (caps, rest) \<Rightarrow> Some (takeWhile (\<lambda>x. x \<noteq> c) s # caps, rest)))"
proof -
  let ?P = "\<lambda>x. x \<noteq> c"
  let ?n = "length (takeWhile ?P s)"
  let ?f = "\<lambda>n. case matchItems (Lit c # its) (drop n s) of
                   None \<Rightarrow> None
                 | Some (caps, rest) \<Rightarrow> Some (take n s # caps, rest)"
  have inC: "inCls (NotChar c) = ?P" by (rule ext) simp
  have none: "?f j = None" if "j < ?n" for j
    using drop_in_run [OF that] by auto
  have last: "?f ?n = (case dropWhile ?P s of
             [] \<Rightarrow> None
           | x # r \<Rightarrow> (case matchItems its r of
                         None \<Rightarrow> None
                       | Some (caps, rest) \<Rightarrow> Some (takeWhile ?P s # caps, rest)))"
  proof (cases "dropWhile ?P s")
    case Nil
    show ?thesis unfolding drop_run take_run Nil by simp
  next
    case (Cons x r)
    then have "x = c" using hd_dropWhile [of ?P s] by force
    then show ?thesis unfolding drop_run take_run Cons by simp
  qed
  have "matchItems (Cap (NotChar c) # Lit c # its) s = firstSome (map ?f (countdown ?n))"
    by (simp only: matchItems.simps greedy_def inC)
  also have "\<dots> = (if ?n = 0 then None else ?f ?n)"
    by (rule firstSome_backtrack) (rule none)
  also have "\<dots> = (if takeWhile ?P s = [] then None else ?f ?n)"
    by simp
  finally show ?thesis unfolding last .
qed

text \<open>The search of a pattern from the start of a text: the leftmost position where the
  pattern matches.\<close>

lemma regexSearch_Some:
  "regexSearch its s = Some (k, caps, rest) \<Longrightarrow>
   k \<le> length s \<and> matchItems its (drop k s) = Some (caps, rest) \<and>
   (\<forall>j < k. matchItems its (drop j s) = None)"
proof (induction s arbitrary: k)
  case Nil
  then show ?case by (auto split: option.splits)
next
  case (Cons x xs)
  show ?case
  proof (cases "matchItems its (x # xs)")
    case (Some r)
    with Cons.prems show ?thesis by (cases r) auto
  next
    case None
    with Cons.prems obtain k' where k: "k = Suc k'" and s: "regexSearch its xs = Some (k', caps, rest)"
      by (auto split: option.splits)
    from Cons.IH [OF s] None k show ?thesis by (auto simp: less_Suc_eq_0_disj)
  qed
qed

lemma run_length: "length (takeWhile P xs) + length (dropWhile P xs) = length xs"
  by (metis length_append takeWhile_dropWhile_id)

lemma matchItems_sourceRegex_eq:
  "matchItems sourceRegex s =
     (case s of
        [] \<Rightarrow> None
      | x # s1 \<Rightarrow>
          if x \<noteq> 0x5B \<or> takeWhile (\<lambda>x. x \<noteq> 0x5D) s1 = [] then None
          else (case dropWhile (\<lambda>x. x \<noteq> 0x5D) s1 of
                  [] \<Rightarrow> None
                | x' # s2 \<Rightarrow>
                    (case s2 of
                       [] \<Rightarrow> None
                     | y # s3 \<Rightarrow>
                         if y \<noteq> 0x28 \<or> takeWhile (\<lambda>x. x \<noteq> 0x29) s3 = [] then None
                         else (case dropWhile (\<lambda>x. x \<noteq> 0x29) s3 of
                                 [] \<Rightarrow> None
                               | y' # s4 \<Rightarrow>
                                   Some ([takeWhile (\<lambda>x. x \<noteq> 0x5D) s1,
                                          takeWhile (\<lambda>x. x \<noteq> 0x29) s3], s4)))))"
  unfolding sourceRegex_def matchItems.simps(2) matchItems_Cap_Lit matchItems.simps(1)
  by (cases s) (simp_all del: dropWhile_eq_Nil_conv takeWhile_eq_Nil_iff split: list.split)

lemma matchItems_sourceRegex_shape:
  assumes "matchItems sourceRegex s = Some (caps, rest)"
  shows "length caps = 2 \<and> length rest + 6 \<le> length s"
proof -
  let ?P = "\<lambda>x. x \<noteq> (0x5D :: jschar)" and ?Q = "\<lambda>x. x \<noteq> (0x29 :: jschar)"
  from assms obtain x s1 x' s2 y s3 y' where
    s: "s = x # s1" and l: "takeWhile ?P s1 \<noteq> []" and d1: "dropWhile ?P s1 = x' # s2"
    and s2: "s2 = y # s3" and u: "takeWhile ?Q s3 \<noteq> []" and d3: "dropWhile ?Q s3 = y' # rest"
    and caps: "caps = [takeWhile ?P s1, takeWhile ?Q s3]"
    unfolding matchItems_sourceRegex_eq by (auto split: list.splits if_splits)
  have "length s1 = length (takeWhile ?P s1) + Suc (Suc (length s3))"
    using run_length [of ?P s1] d1 s2 by simp
  moreover have "length s3 = length (takeWhile ?Q s3) + Suc (length rest)"
    using run_length [of ?Q s3] d3 by simp
  moreover have "1 \<le> length (takeWhile ?P s1)" "1 \<le> length (takeWhile ?Q s3)"
    using l u by (simp_all add: Suc_le_eq)
  moreover have "length s = Suc (length s1)" using s by simp
  ultimately have "length rest + 6 \<le> length s" by linarith
  then show ?thesis using caps by simp
qed

lemma regexExec_sourceRegex_advances:
  assumes "regexExec sourceRegex s i = (Some m, i')"
  shows "i < i' \<and> i' \<le> length s \<and> length (groups m) = 2"
proof -
  from assms have i: "i \<le> length s"
    by (auto simp: regexExec_def split: if_splits)
  with assms obtain k caps rest where
    r: "regexSearch sourceRegex (drop i s) = Some (k, caps, rest)"
    and m: "groups m = caps" and i': "i' = length s - length rest"
    by (auto simp: regexExec_def split: option.splits)
  from regexSearch_Some [OF r]
  have k: "k \<le> length s - i" and mt: "matchItems sourceRegex (drop k (drop i s)) = Some (caps, rest)"
    by simp_all
  from matchItems_sourceRegex_shape [OF mt]
  have "length caps = 2" "length rest + 6 \<le> length s - i - k" by (simp_all add: add.commute)
  with i k i' m show ?thesis by simp
qed

lemma sourceRegex_measure:
  assumes "(Some m, i') = regexExec sourceRegex s i"
  shows "Suc (length s) - i' < Suc (length s) - i"
  using regexExec_sourceRegex_advances [OF assms [symmetric]] by linarith

text \<open>The loop of \<open>generateResponse\<close> over its variables: the \<open>lastIndex\<close> of the regular
  expression, \<open>usedUrls\<close> and \<open>sources\<close>. It returns the sources and the \<open>lastIndex\<close>
  with which it ends. \<open>match[2]\<close> is the second group, which every match of the pattern
  has (\<open>regexExec_sourceRegex_advances\<close>).\<close>

function sourcesLoop ::
  "article list \<Rightarrow> jsstring \<Rightarrow> nat \<Rightarrow> jsstring set \<Rightarrow> article list \<Rightarrow> article list \<times> nat" where
  "sourcesLoop articles text lastIndex usedUrls srcs =
     (case regexExec sourceRegex text lastIndex of
        (None, lastIndex') \<Rightarrow> (srcs, lastIndex')
      | (Some m, lastIndex') \<Rightarrow>
          (let u = groups m ! 1 in
           if u \<in> usedUrls then sourcesLoop articles text lastIndex' usedUrls srcs
           else (case find (\<lambda>a. url a = Some u) articles of
                   Some a \<Rightarrow> sourcesLoop articles text lastIndex' (insert u usedUrls) (srcs @ [a])
                 | None \<Rightarrow> sourcesLoop articles text lastIndex' usedUrls srcs)))"
  by pat_completeness auto
termination
proof (relation "measure (\<lambda>(articles, text, lastIndex, usedUrls, srcs). Suc (length text) - lastIndex)")
  show "wf (measure (\<lambda>(articles, text, lastIndex, usedUrls, srcs). Suc (length text) - lastIndex))"
    by simp
qed (auto intro: sourceRegex_measure)

declare sourcesLoop.simps [simp del]

text \<open>The targets of all the citations that the regular expression matches in a text
  (\<open>match[2]\<close> of each match), in order.\<close>

function citedUrls :: "jsstring \<Rightarrow> nat \<Rightarrow> jsstring list" where
  "citedUrls text lastIndex =
     (case regexExec sourceRegex text lastIndex of
        (None, lastIndex') \<Rightarrow> []
      | (Some m, lastIndex') \<Rightarrow> (groups m ! 1) # citedUrls text lastIndex')"
  by pat_completeness auto
termination
proof (relation "measure (\<lambda>(text, lastIndex). Suc (length text) - lastIndex)")
  show "wf (measure (\<lambda>(text, lastIndex). Suc (length text) - lastIndex))"
    by simp
qed (auto intro: sourceRegex_measure)

declare citedUrls.simps [simp del]

section \<open>The article processor with citations (second unnamed source)\<close>

text \<open>The prompt and the function \<open>processArticle\<close> of the second unnamed source.\<close>

definition cleaningPrompt2 :: "jsstring \<Rightarrow> jsstring \<Rightarrow> jsstring \<Rightarrow> jsstring" where
  \<open>cleaningPrompt2 t c u =
     js ''Clean and structure this news article into JSON format:'' @ nl @
     sp 24 @ js ''Title: '' @ t @ nl @
     sp 24 @ js ''Content: '' @ substring0 c 10000 @ nl @ nl @
     sp 24 @ js ''Output format:'' @ nl @
     sp 24 @ js ''{'' @ nl @
     sp 28 @ js ''"title": "Clean article title",'' @ nl @
     sp 28 @ js ''"content": "Cleaned and concise article content",'' @ nl @
     sp 28 @ js ''"url": "'' @ u @ js ''",'' @ nl @
     sp 28 @ js ''"date": "YYYY-MM-DD"'' @ nl @
     sp 24 @ js ''}''\<close>

definition processArticle2 :: "'v env \<Rightarrow> 'v world \<Rightarrow> jsstring \<Rightarrow> (error + article) \<times> 'v world" where
  "processArticle2 env w u =
     rethrow (js ''Failed to process article '' @ u @ js '':'')
       (bindE (fetchText env u) (\<lambda>html.
          if html = [] then Inl (Error (js ''Failed to fetch valid HTML content.''))
          else
            let t = (if trim (h1First env html) \<noteq> [] then trim (h1First env html)
                     else trim (titleText env html));
                rawContent = joinWith (nl @ nl) (map trim (paragraphs env html))
            in bindE (generateContent env (js ''gemini-2.5-pro-exp-03-25'')
                        (cleaningPrompt2 t rawContent u))
                 (\<lambda>result. bindE result (\<lambda>text. parseBetweenBraces env text))),
        w)"

text \<open>\<open>ResponseWithSources\<close>, one line of the context of \<open>generateResponse\<close>, and its
  prompt.\<close>

record responseWithSources =
  answer :: jsstring
  sources :: "article list"

definition sourceLine :: "'v env \<Rightarrow> article \<Rightarrow> error + jsstring" where
  "sourceLine env a =
     bindE (substringOf (content a) 1000) (\<lambda>c.
       Inr (js ''['' @ toStr (title a) @ js ''](''  @ toStr (url a) @ js '') - Accessed '' @
            orToday env (date a) @ nl @ js ''Content: '' @ c))"

definition citingPrompt :: "jsstring \<Rightarrow> jsstring \<Rightarrow> jsstring" where
  \<open>citingPrompt q ctx =
     js ''Answer this query: '' @ q @ nl @ nl @
     js ''Available Sources:'' @ nl @ ctx @ nl @ nl @
     js ''Format Requirements:'' @ nl @
     js ''1. Include ALL sources used in this exact format: "[Title](URL)"'' @ nl @
     js ''2. Place source references at relevant points in your answer'' @ nl @
     js ''3. List ALL used sources again at the end in a "Sources:" section''\<close>

text \<open>\<open>generateResponse\<close> of the second unnamed source.\<close>

definition generateResponse ::
  "'v env \<Rightarrow> 'v world \<Rightarrow> jsstring \<Rightarrow> article list \<Rightarrow> (error + responseWithSources) \<times> 'v world" where
  "generateResponse env w q articles =
     rethrow (js ''Failed to generate response:'')
       (bindE (mapE (sourceLine env) articles) (\<lambda>parts.
          bindE (generateContent env (js ''gemini-2.5-pro-exp-03-25'')
                   (citingPrompt q (joinWith (nl @ nl) parts)))
            (\<lambda>response. bindE response (\<lambda>text.
               Inr \<lparr>answer = text, sources = fst (sourcesLoop articles text 0 {} [])\<rparr>))),
        w)"

text \<open>\<open>Buffer.from(article.url).toString('base64').slice(0, 64)\<close>: a \<open>TypeError\<close> when
  \<open>article.url\<close> is undefined.\<close>

definition articleIdOf :: "jsstring option \<Rightarrow> error + jsstring" where
  "articleIdOf v =
     (case v of
        None \<Rightarrow> Inl (TypeError (js ''The first argument must be of type string or an instance of Buffer, ArrayBuffer, or Array or an Array-like Object. Received undefined''))
      | Some u \<Rightarrow> Inr (articleId u))"

text \<open>Steps 3 to 5 of \<open>storeArticle\<close>: the id, the metadata and the record to upsert.\<close>

definition buildVector :: "'v env \<Rightarrow> article \<Rightarrow> 'v \<Rightarrow> error + 'v vector" where
  "buildVector env a embedding =
     bindE (articleIdOf (url a)) (\<lambda>aid.
       bindE (substringOf (title a) 1000) (\<lambda>t.
         bindE (substringOf (content a) 5000) (\<lambda>c.
           Inr \<lparr>vid = aid, vvalues = embedding,
                metadata = Some \<lparr>title = Some t, content = Some c, url = url a,
                                  date = Some (orToday env (date a))\<rparr>\<rparr>)))"

text \<open>\<open>storeArticle\<close> of the second unnamed source.\<close>

definition storeArticle2 :: "'v env \<Rightarrow> 'v world \<Rightarrow> article \<Rightarrow> (error + unit) \<times> 'v world" where
  "storeArticle2 env w a =
     rethrow (js ''Error storing article:'')
       (case bindE (substringOf (content a) 1000) (\<lambda>c.
               bindE (embedContent env (toStr (title a) @ nl @ c)) (\<lambda>embedding.
                 bindE (buildVector env a embedding) (\<lambda>v.
                   bindE (upsert env (store w) v) (\<lambda>st.
                     bindE (substringOf (title a) 50) (\<lambda>t. Inr (st, t))))))
        of
          Inl e \<Rightarrow> (Inl e, w)
        | Inr (st, t) \<Rightarrow>
            (Inr (),
             logged (ConsoleLog [Val (JStr (js ''Stored article: '' @ t @ js ''...''))])
               (stored st w)))"

section \<open>The article processor that stores (first unnamed source)\<close>

text \<open>The prompt, \<open>storeArticle\<close> and \<open>processArticle\<close> of the first unnamed source.\<close>

definition cleaningPrompt1 :: "jsstring \<Rightarrow> jsstring \<Rightarrow> jsstring \<Rightarrow> jsstring" where
  \<open>cleaningPrompt1 t c u =
     nl @ sp 24 @ js ''Clean and structure this news article into JSON format:'' @ nl @
     sp 24 @ js ''Title: '' @ t @ nl @
     sp 24 @ js ''Content: '' @ substring0 c 10000 @ nl @ nl @
     sp 24 @ js ''Output format:'' @ nl @
     sp 24 @ js ''{'' @ nl @
     sp 28 @ js ''"title": "Clean article title",'' @ nl @
     sp 28 @ js ''"content": "Cleaned and concise article content",'' @ nl @
     sp 28 @ js ''"url": "'' @ u @ js ''",'' @ nl @
     sp 28 @ js ''"date": "Extracted or current date in YYYY-MM-DD format"'' @ nl @
     sp 24 @ js ''}'' @ nl @ sp 24\<close>

definition storeArticle1 :: "'v env \<Rightarrow> 'v world \<Rightarrow> article \<Rightarrow> (error + unit) \<times> 'v world" where
  "storeArticle1 env w a =
     rethrow (js ''Error storing article in Pinecone:'')
       (bindW
          (rethrowAs (js ''Error generating embeddings with Gemini:'')
             (js ''Failed to generate embeddings.'')
             (bindE (substringOf (content a) 1000) (\<lambda>c.
                embedContent env (toStr (title a) @ nl @ c)), w))
          (\<lambda>embedding w1.
             case bindE (buildVector env a embedding) (\<lambda>v. upsert env (store w1) v) of
               Inl e \<Rightarrow> (Inl e, w1)
             | Inr st \<Rightarrow>
                 (Inr (),
                  logged (ConsoleLog [Val (JStr (js ''Stored article: '' @ toStr (title a)))])
                    (stored st w1))))"

definition processArticle1 :: "'v env \<Rightarrow> 'v world \<Rightarrow> jsstring \<Rightarrow> (error + unit) \<times> 'v world" where
  "processArticle1 env w u =
     rethrow (js ''Error processing article:'')
       (bindW
          (bindE (fetchText env u) (\<lambda>html.
             if html = [] then Inl (Error (js ''Failed to fetch valid HTML content.''))
             else Inr html), w)
          (\<lambda>html w0.
             let t = trim (h1All env html);
                 rawContent = joinWith (nl @ nl) (map trim (paragraphs env html))
             in bindW
                  (rethrowAs (js ''Error generating content with Gemini:'')
                     (js ''Failed to process article content.'')
                     (generateContent env (js ''gemini-2.5-pro-exp-03-25'')
                        (cleaningPrompt1 t rawContent u), w0))
                  (\<lambda>result w1.
                     bindW
                       (rethrowAs (js ''Error parsing Gemini response:'')
                          (js ''Invalid response format from Gemini.'')
                          (bindE result (jsonParse env), w1))
                       (\<lambda>a w2. storeArticle1 env w2 a))))"

section \<open>The ingestion listener (src/kafka/consumer.ts)\<close>

text \<open>\<open>${n}\<close> for a number \<open>n\<close> that is a natural number.\<close>

function numStr :: "nat \<Rightarrow> jsstring" where
  "numStr n = (if n < 10 then [0x30 + of_nat n] else numStr (n div 10) @ [0x30 + of_nat (n mod 10)])"
  by pat_completeness auto
termination
  by (relation "measure id") auto

declare numStr.simps [simp del]

text \<open>\<open>s.replace(/\s+/g, ' ')\<close>: every maximal run of whitespace becomes one space.\<close>

function collapseSpaces :: "jsstring \<Rightarrow> jsstring" where
  "collapseSpaces [] = []"
| "collapseSpaces (c # cs) =
     (if isSpace c then 0x20 # collapseSpaces (dropWhile isSpace cs) else c # collapseSpaces cs)"
  by pat_completeness auto
termination
  by (relation "measure length") (auto simp: length_dropWhile_le less_Suc_eq_le)

text \<open>The argument of \<open>eachMessage\<close>: the partition and \<open>message.value?.toString()\<close>.\<close>

record kafkaMessage =
  partition :: nat
  payload :: "jsstring option"

text \<open>The prompt of the ingestion listener (consumer.ts, lines 64-76).\<close>

definition transformPrompt :: "jsstring \<Rightarrow> jsstring \<Rightarrow> jsstring \<Rightarrow> jsstring" where
  \<open>transformPrompt u rawTitle rawContent =
     nl @ sp 12 @ js ''Transform this raw article content into structured JSON:'' @ nl @
     sp 12 @ js ''URL: '' @ u @ nl @
     sp 12 @ js ''Raw Title: '' @ substring0 rawTitle 200 @ nl @
     sp 12 @ js ''Raw Content: '' @ substring0 rawContent 10000 @ nl @ nl @
     sp 12 @ js ''Output MUST be valid JSON in this exact format:'' @ nl @
     sp 12 @ js ''{'' @ nl @
     sp 14 @ js ''"title": "Cleaned article title",'' @ nl @
     sp 14 @ js ''"content": "Cleaned and concise article content",'' @ nl @
     sp 14 @ js ''"url": "'' @ u @ js ''",'' @ nl @
     sp 14 @ js ''"date": "YYYY-MM-DD" (use current date if not available)'' @ nl @
     sp 12 @ js ''}''\<close>

text \<open>The body of the \<open>try\<close> block of the listener, up to the upsert request: the vector
  to store and the article parsed from the model's reply.\<close>

definition prepare :: "'v env \<Rightarrow> jsstring \<Rightarrow> error + ('v vector \<times> article)" where
  "prepare env u =
     bindE (fetchText env u) (\<lambda>html.
       if html = [] then Inl (Error (js ''Failed to fetch HTML content''))
       else
         let rawTitle = (if trim (h1First env html) \<noteq> [] then trim (h1First env html)
                         else trim (titleText env html));
             rawContent = trim (collapseSpaces (bodyText env html))
         in bindE (generateContent env (js ''gemini-2.5-pro-exp-03-25'')
                     (transformPrompt u rawTitle rawContent))
              (\<lambda>response. bindE response (\<lambda>text.
                 bindE (parseBetweenBraces env text) (\<lambda>a.
                   bindE (substringOf (content a) 1000) (\<lambda>c.
                     bindE (embedContent env (toStr (title a) @ nl @ c)) (\<lambda>embedding.
                       Inr (\<lparr>vid = articleId u, vvalues = embedding, metadata = Some a\<rparr>,
                            a)))))))"

text \<open>The whole \<open>try\<close> block: the upsert, then the values of the success log line. The
  store is returned in every case, as a write is not undone by a later error.\<close>

definition ingest ::
  "'v env \<Rightarrow> 'v vstore \<Rightarrow> jsstring \<Rightarrow> (error + (article \<times> nat)) \<times> 'v vstore" where
  "ingest env st u =
     (case prepare env u of
        Inl e \<Rightarrow> (Inl e, st)
      | Inr (v, a) \<Rightarrow>
          (case upsert env st v of
             Inl e \<Rightarrow> (Inl e, st)
           | Inr st' \<Rightarrow> (bindE (lengthOf (content a)) (\<lambda>n. Inr (a, n)), st')))"

text \<open>\<open>eachMessage\<close> of consumer.ts, lines 43-110.\<close>

definition eachMessage :: "'v env \<Rightarrow> 'v world \<Rightarrow> kafkaMessage \<Rightarrow> (error + unit) \<times> 'v world" where
  "eachMessage env w msg =
     (case payload msg of
        None \<Rightarrow>
          (Inr (),
           logged (ConsoleWarn [Val (JStr (js ''Invalid URL in message [Partition '' @
                                           numStr (partition msg) @ js '']''))]) w)
      | Some u \<Rightarrow>
          if u = [] \<or> \<not> prefix (js ''http'') u then
            (Inr (),
             logged (ConsoleWarn [Val (JStr (js ''Invalid URL in message [Partition '' @
                                             numStr (partition msg) @ js '']''))]) w)
          else
            let w0 = logged (ConsoleLog [Val (JStr (js ''Processing article URL [Partition '' @
                                          numStr (partition msg) @ js '']: '' @ u))]) w
            in case ingest env (store w0) u of
                 (Inl e, st) \<Rightarrow>
                   (Inr (),
                    logged (ConsoleError
                              [Val (JStr (js ''Failed to process article '' @ u @ js '':'')),
                               if instanceofError e then Val (JStr (message e)) else Thrown e])
                      (stored st w0))
               | (Inr (a, n), st) \<Rightarrow>
                   (Inr (),
                    logged (ConsoleLog
                              [Val (JStr (js ''Successfully processed article:'')),
                               Val (JObj [(''title'', optVal (title a)), (''url'', optVal (url a)),
                                          (''date'', optVal (date a)),
                                          (''contentLength'', JNum n)])])
                      (stored st w0)))"

section \<open>The query listener (third unnamed source)\<close>

text \<open>The body of the \<open>try\<close> block of the query listener: the answer text and the
  retrieved articles, or the error thrown.\<close>

definition answerQuery ::
  "'v env \<Rightarrow> 'v world \<Rightarrow> jsstring \<Rightarrow> (error + (jsstring \<times> article list)) \<times> 'v world" where
  "answerQuery env w q =
     bindW (searchArticles env w q 3) (\<lambda>relevantArticles w1.
       (bindE (mapE contextLine relevantArticles) (\<lambda>parts.
          bindE (generateContent env (js ''gemini-1.5-pro'')
                   (answerPrompt q (joinWith (nl @ nl) parts)))
            (\<lambda>response. bindE response (\<lambda>text. Inr (text, relevantArticles)))),
        w1))"

text \<open>\<open>eachMessage\<close> of the third unnamed source.\<close>

definition eachMessageQuery ::
  "'v env \<Rightarrow> 'v world \<Rightarrow> kafkaMessage \<Rightarrow> (error + unit) \<times> 'v world" where
  "eachMessageQuery env w msg =
     (case payload msg of
        None \<Rightarrow> (Inr (),
           logged (ConsoleWarn [Val (JStr (js ''Message without a valid query:'')),
                                Val (JObj [(''value'', optVal (payload msg))])]) w)
      | Some q \<Rightarrow>
          if q = [] then
            (Inr (),
           logged (ConsoleWarn [Val (JStr (js ''Message without a valid query:'')),
                                Val (JObj [(''value'', optVal (payload msg))])]) w)
          else
            let w0 = logged (ConsoleLog [Val (JStr (js ''Processing query [Partition '' @
                                          numStr (partition msg) @ js '']: '' @ q))]) w
            in case answerQuery env w0 q of
                 (Inl e, w1) \<Rightarrow>
                   (Inr (),
                    logged (ConsoleError
                              [Val (JStr (js ''Failed to process query '' @ q @ js '':'')), Thrown e])
                      w1)
               | (Inr (text, relevantArticles), w1) \<Rightarrow>
                   (Inr (),
                    logged (ConsoleLog [Val (JStr (js ''Sources:'')),
                                        Val (JArr (map sourceOf relevantArticles))])
                      (logged (ConsoleLog [Val (JStr (js ''Generated response:'')),
                                           Val (JStr text)]) w1)))"

section \<open>The consumer runtime\<close>

text \<open>
  The message runtime (an external library) awaits the handler for one message before it
  hands over the next. A handler that rejects stops the run with the message still
  unacknowledged, so that it is delivered again; a handler that resolves lets the run move
  on. The result is the outcome, the final world and the messages left unprocessed.
\<close>

fun consumerRun ::
  "('w \<Rightarrow> kafkaMessage \<Rightarrow> (error + unit) \<times> 'w) \<Rightarrow> 'w \<Rightarrow> kafkaMessage list \<Rightarrow>
   (error + unit) \<times> 'w \<times> kafkaMessage list" where
  "consumerRun handler w [] = (Inr (), w, [])"
| "consumerRun handler w (m # ms) =
     (case handler w m of
        (Inl e, w') \<Rightarrow> (Inl e, w', m # ms)
      | (Inr x, w') \<Rightarrow> consumerRun handler w' ms)"

section \<open>Notions of the specification\<close>

text \<open>A character outside the class \<open>\s\<close>.\<close>

definition nonSpace :: "jschar \<Rightarrow> bool" where
  "nonSpace c = (\<not> isSpace c)"

text \<open>The text that follows a leading \<open>https://\<close> or \<open>http://\<close>.\<close>

definition afterScheme :: "jsstring \<Rightarrow> jsstring option" where
  "afterScheme s =
     (if prefix (js ''https://'') s then Some (drop 8 s)
      else if prefix (js ''http://'') s then Some (drop 7 s)
      else None)"

text \<open>The detector in the words of the specification: the first maximal run of
  non-whitespace characters that begins with \<open>http://\<close> or \<open>https://\<close>.\<close>

fun firstSchemeRun :: "jsstring \<Rightarrow> jsstring option" where
  "firstSchemeRun [] = None"
| "firstSchemeRun (c # cs) =
     (if afterScheme (c # cs) \<noteq> None then Some (takeWhile nonSpace (c # cs))
      else firstSchemeRun cs)"

text \<open>What the detector computes: the scheme has to be followed by at least one
  non-whitespace character.\<close>

definition urlStartsAt :: "jsstring \<Rightarrow> bool" where
  "urlStartsAt s = (case afterScheme s of None \<Rightarrow> False | Some r \<Rightarrow> r \<noteq> [] \<and> nonSpace (hd r))"

fun firstUrl :: "jsstring \<Rightarrow> jsstring option" where
  "firstUrl [] = None"
| "firstUrl (c # cs) =
     (if urlStartsAt (c # cs) then Some (takeWhile nonSpace (c # cs)) else firstUrl cs)"

text \<open>A \<open>{\<close> with a \<open>}\<close> somewhere after it.\<close>

definition braceSpan :: "jsstring \<Rightarrow> bool" where
  "braceSpan s = (0x7D \<in> set (dropWhile (\<lambda>c. c \<noteq> 0x7B) s))"

text \<open>Two facts of \<open>JSON.parse\<close> that the Normalizer relies on: the empty text and the
  text \<open>}\<close> are syntax errors.\<close>

definition rejectsNonJson :: "'v env \<Rightarrow> bool" where
  "rejectsNonJson env = (isl (jsonParse env []) \<and> isl (jsonParse env [0x7D]))"

text \<open>A string of ASCII characters: its UTF-8 encoding has one byte for each character.\<close>

definition isAscii :: "jsstring \<Rightarrow> bool" where
  "isAscii s = list_all (\<lambda>c. unat c < 0x80) s"

section \<open>An example environment\<close>

text \<open>
  A page, a model that replies with a given text, a parser that knows one JSON text, an
  index that returns given matches, and the articles and messages of the examples.
\<close>

definition demoMembers :: jsstring where
  \<open>demoMembers = js ''"title":"T","content":"C","url":"https://e.com/1"''\<close>

definition demoJson :: jsstring where
  "demoJson = 0x7B # demoMembers @ [0x7D]"

definition demoEnv :: "jsstring \<Rightarrow> nat vector list \<Rightarrow> nat env" where
  \<open>demoEnv reply matches =
     \<lparr>fetchText = (\<lambda>u. Inr (js ''<h1>Title</h1><p>Body</p>'')),
      h1First = (\<lambda>html. js ''Title''),
      h1All = (\<lambda>html. js ''Title''),
      titleText = (\<lambda>html. []),
      paragraphs = (\<lambda>html. [js ''Body'']),
      bodyText = (\<lambda>html. js ''Title Body''),
      generateContent = (\<lambda>model prompt. Inr (Inr reply)),
      embedContent = (\<lambda>t. Inr (length t)),
      jsonParse = (\<lambda>s. if s = demoJson
                        then Inr \<lparr>title = Some (js ''T''), content = Some (js ''C''),
                                  url = Some (js ''https://e.com/1''), date = None\<rparr>
                        else Inl (SyntaxError (js ''Unexpected token''))),
      queryIndex = (\<lambda>st v topK. Inr (take topK matches)),
      upsertFault = (\<lambda>v. None),
      today = js ''2025-04-01''\<rparr>\<close>

text \<open>The article numbered \<open>n\<close> of the examples and its record in the index.\<close>

definition demoArticle :: "string \<Rightarrow> article" where
  "demoArticle n =
     \<lparr>title = Some (js n), content = Some (js ''text''), url = Some (js ''https://e.com/'' @ js n),
      date = Some (js ''2025-03-30'')\<rparr>"

text \<open>A world with an empty index and an empty console.\<close>

definition emptyWorld :: "nat world" where
  "emptyWorld = \<lparr>store = Map.empty, console = []\<rparr>"

definition demoCandidates :: "article list" where
  "demoCandidates = [demoArticle ''1'', demoArticle ''2'', demoArticle ''3'']"

definition demoAnswer :: jsstring where
  "demoAnswer =
     js ''Per [One](https://e.com/1), [Two](https://e.com/2) and again [One](https://e.com/1).''"

text \<open>A match whose metadata holds a title only.\<close>

definition partialMatch :: "nat vector" where
  "partialMatch =
     \<lparr>vid = js ''aWQ='', vvalues = 0,
      metadata = Some \<lparr>title = Some (js ''No link''), content = None, url = None, date = None\<rparr>\<rparr>"

definition demoMatch :: "string \<Rightarrow> nat vector" where
  "demoMatch n =
     \<lparr>vid = articleId (js ''https://e.com/'' @ js n), vvalues = 0, metadata = Some (demoArticle n)\<rparr>"

definition demoCited :: jsstring where
  "demoCited = js ''Topic X moved on, see [One](https://e.com/1).''"

definition demoQuery :: jsstring where
  "demoQuery = js ''latest on topic X''"

text \<open>The example environment with a page fetch that fails.\<close>

definition downEnv :: "nat env" where
  "downEnv = (demoEnv [] [])\<lparr>fetchText := (\<lambda>u. Inl (Error (js ''fetch failed'')))\<rparr>"

definition demoMessage :: kafkaMessage where
  "demoMessage = \<lparr>partition = 0, payload = Some (js ''https://e.com/1'')\<rparr>"

definition demoRefusal :: jsstring where
  "demoRefusal = js ''Sorry, I can't help.''"

definition demoWrapped :: jsstring where
  "demoWrapped = js ''Here is the JSON: '' @ demoJson @ js '' Hope it helps!''"

definition demoUrlQuery :: jsstring where
  "demoUrlQuery = js ''What happened at https://example.com/news/1''"

definition demoUrl :: jsstring where
  "demoUrl = js ''https://example.com/news/1''"

text \<open>An article with a long title, a long content and an empty date.\<close>

definition undatedArticle :: article where
  "undatedArticle =
     \<lparr>title = Some (replicate 1200 0x54), content = Some (replicate 6000 0x63),
      url = Some (js ''https://e.com/1''), date = Some []\<rparr>"

text \<open>Two articles of one site whose URLs share their first 48 characters.\<close>

definition firstStoryUrl :: jsstring where
  "firstStoryUrl = js ''https://www.example.com/2025/04/01/world/europe/first-story.html''"

definition otherStoryUrl :: jsstring where
  "otherStoryUrl = js ''https://www.example.com/2025/04/01/world/europe/other-story.html''"

definition story :: "string \<Rightarrow> jsstring \<Rightarrow> article" where
  "story t u = \<lparr>title = Some (js t), content = Some (js ''text''), url = Some u,
                date = Some (js ''2025-04-01'')\<rparr>"

section \<open>Lemmas\<close>

subsection \<open>Base64 of the first 48 bytes\<close>

lemma slice_from_0: "0 \<le> n \<Longrightarrow> slice s 0 n = take (nat n) s"
  by (cases "n \<le> int (length s)") (simp_all add: slice_def min_def max_def)

lemma unat_b64: "unat (b64 n) = of_char (base64Alphabet ! n)"
proof -
  have lt: "(of_char (base64Alphabet ! n) :: nat) < 256" by simp
  have "(of_char (base64Alphabet ! n) :: nat) mod 65536 = of_char (base64Alphabet ! n)"
    by (rule mod_less) (use lt in linarith)
  then show ?thesis by (simp add: b64_def unat_of_nat)
qed

lemma b64_inj: "i < 64 \<Longrightarrow> j < 64 \<Longrightarrow> b64 i = b64 j \<Longrightarrow> i = j"
proof -
  assume i: "i < 64" and j: "j < 64" and e: "b64 i = b64 j"
  from e have "unat (b64 i) = unat (b64 j)" by simp
  then have "(of_char (base64Alphabet ! i) :: nat) = of_char (base64Alphabet ! j)"
    by (simp only: unat_b64)
  then have "base64Alphabet ! i = base64Alphabet ! j" by simp
  moreover have "distinct base64Alphabet" by (simp add: base64Alphabet_def)
  moreover have "length base64Alphabet = 64" by (simp add: base64Alphabet_def)
  ultimately show "i = j" using i j by (simp add: nth_eq_iff_index_eq)
qed

lemma b64_not_pad: "i < 64 \<Longrightarrow> b64 i \<noteq> 0x3D"
proof
  assume i: "i < 64" and e: "b64 i = 0x3D"
  from e have "unat (b64 i) = unat (0x3D :: jschar)" by simp
  then have "(of_char (base64Alphabet ! i) :: nat) = of_char (CHR ''='')"
    by (simp add: unat_b64)
  then have "base64Alphabet ! i = CHR ''=''" by (simp only: of_char_eq_iff)
  moreover have "CHR ''='' \<notin> set base64Alphabet" by (simp add: base64Alphabet_def)
  moreover have "length base64Alphabet = 64" by (simp add: base64Alphabet_def)
  ultimately show False using i by (metis nth_mem)
qed

lemma byte_lt: "unat (a :: byte) < 256"
  using unsigned_less [of a, where ?'a = nat] by simp

lemma pack_inj:
  fixes p q p' q' m :: nat
  assumes "q < m" "q' < m" "p * m + q = p' * m + q'"
  shows "p = p' \<and> q = q'"
proof -
  have "(p * m + q) div m = p" "(p * m + q) mod m = q" using assms(1) by simp_all
  moreover have "(p' * m + q') div m = p'" "(p' * m + q') mod m = q'" using assms(2) by simp_all
  ultimately show ?thesis using assms(3) by metis
qed

lemma sextet_bounds:
  "unat (a :: byte) div 4 < 64"
  "unat (a :: byte) mod 4 * 16 < 64"
  "unat (a :: byte) mod 4 * 16 + unat (b :: byte) div 16 < 64"
  "unat (b :: byte) mod 16 * 4 < 64"
  "unat (b :: byte) mod 16 * 4 + unat (c :: byte) div 64 < 64"
  "unat (c :: byte) mod 64 < 64"
proof -
  have a: "unat a mod 4 < 4" and b: "unat b div 16 < 16" and b': "unat b mod 16 < 16"
    and c: "unat c div 64 < 4"
    using byte_lt [of b] byte_lt [of c] by simp_all
  show "unat a div 4 < 64" using byte_lt [of a] by simp
  show "unat a mod 4 * 16 < 64" using a by linarith
  show "unat a mod 4 * 16 + unat b div 16 < 64" using a b by linarith
  show "unat b mod 16 * 4 < 64" using b' by linarith
  show "unat b mod 16 * 4 + unat c div 64 < 64" using b' c by linarith
  show "unat c mod 64 < 64" by simp
qed

lemma sextet_eq:
  fixes x x' :: nat
  shows "x div 4 = x' div 4 \<Longrightarrow> x mod 4 = x' mod 4 \<Longrightarrow> x = x'"
  by (metis div_mult_mod_eq)

lemma bytes1_eq:
  assumes "b64 (unat (a :: byte) div 4) = b64 (unat (a' :: byte) div 4)"
    and "b64 (unat a mod 4 * 16 + p) = b64 (unat a' mod 4 * 16 + p')"
    and "p < 16" "p' < 16"
  shows "a = a' \<and> p = p'"
proof -
  have m: "unat a mod 4 < 4" "unat a' mod 4 < 4" by simp_all
  have "unat a div 4 = unat a' div 4"
    using assms(1) by (intro b64_inj sextet_bounds)
  moreover have "unat a mod 4 * 16 + p = unat a' mod 4 * 16 + p'"
    using assms(2) by (intro b64_inj) (use m assms(3,4) in linarith)+
  then have "unat a mod 4 = unat a' mod 4 \<and> p = p'"
    using assms(3,4) by (intro pack_inj)
  ultimately show ?thesis using sextet_eq [of "unat a" "unat a'"]
    by (simp add: word_unat_eq_iff)
qed

lemma bytes2_eq:
  assumes "unat (b :: byte) div 16 = unat (b' :: byte) div 16"
    and "b64 (unat b mod 16 * 4 + q) = b64 (unat b' mod 16 * 4 + q')"
    and "q < 4" "q' < 4"
  shows "b = b' \<and> q = q'"
proof -
  have m: "unat b mod 16 < 16" "unat b' mod 16 < 16" by simp_all
  have "unat b mod 16 * 4 + q = unat b' mod 16 * 4 + q'"
    using assms(2) by (intro b64_inj) (use m assms(3,4) in linarith)+
  then have "unat b mod 16 = unat b' mod 16 \<and> q = q'"
    using assms(3,4) by (intro pack_inj)
  moreover from this assms(1) have "unat b = unat b'" by (metis div_mult_mod_eq)
  ultimately show ?thesis by (simp add: word_unat_eq_iff)
qed

lemma bytes3_eq:
  assumes "unat (c :: byte) div 64 = unat (c' :: byte) div 64"
    and "b64 (unat c mod 64) = b64 (unat c' mod 64)"
  shows "c = c'"
proof -
  have "unat c mod 64 = unat c' mod 64"
    using assms(2) by (intro b64_inj) simp_all
  with assms(1) have "unat c = unat c'" by (metis div_mult_mod_eq)
  then show ?thesis by (simp add: word_unat_eq_iff)
qed

lemma div_bounds: "unat (b :: byte) div 16 < 16" "unat (c :: byte) div 64 < 4"
  using byte_lt [of b] byte_lt [of c] by simp_all

lemma base64_inj: "base64 xs = base64 ys \<Longrightarrow> xs = ys"
proof (induction xs arbitrary: ys rule: base64.induct)
  case 1
  then show ?case by (cases ys rule: base64.cases) simp_all
next
  case (2 a)
  show ?case
  proof (cases ys rule: base64.cases)
    case 1
    with 2 show ?thesis by simp
  next
    case (2 a')
    with "2.prems" bytes1_eq [of a a' 0 0] show ?thesis by simp
  next
    case (3 a' b')
    with "2.prems" b64_not_pad [OF sextet_bounds(4), of b'] show ?thesis by simp
  next
    case (4 a' b' c' bs')
    with "2.prems" b64_not_pad [OF sextet_bounds(5), of b' c'] show ?thesis by simp
  qed
next
  case (3 a b)
  show ?case
  proof (cases ys rule: base64.cases)
    case 1
    with 3 show ?thesis by simp
  next
    case (2 a')
    with "3.prems" b64_not_pad [OF sextet_bounds(4), of b] show ?thesis by simp
  next
    case (3 a' b')
    with "3.prems" have e: "b64 (unat a div 4) = b64 (unat a' div 4)"
      "b64 (unat a mod 4 * 16 + unat b div 16) = b64 (unat a' mod 4 * 16 + unat b' div 16)"
      "b64 (unat b mod 16 * 4 + 0) = b64 (unat b' mod 16 * 4 + 0)" by simp_all
    from bytes1_eq [OF e(1,2) div_bounds(1) div_bounds(1)]
    have a: "a = a'" and d: "unat b div 16 = unat b' div 16" by simp_all
    from bytes2_eq [OF d e(3)] have "b = b'" by simp
    with a 3 show ?thesis by simp
  next
    case (4 a' b' c' bs')
    with "3.prems" b64_not_pad [OF sextet_bounds(6), of c'] show ?thesis by simp
  qed
next
  case (4 a b c bs)
  show ?case
  proof (cases ys rule: base64.cases)
    case 1
    with 4 show ?thesis by simp
  next
    case (2 a')
    with "4.prems" b64_not_pad [OF sextet_bounds(5), of b c] show ?thesis by simp
  next
    case (3 a' b')
    with "4.prems" b64_not_pad [OF sextet_bounds(6), of c] show ?thesis by simp
  next
    case ys: (4 a' b' c' bs')
    with "4.prems" have e: "b64 (unat a div 4) = b64 (unat a' div 4)"
      "b64 (unat a mod 4 * 16 + unat b div 16) = b64 (unat a' mod 4 * 16 + unat b' div 16)"
      "b64 (unat b mod 16 * 4 + unat c div 64) = b64 (unat b' mod 16 * 4 + unat c' div 64)"
      "b64 (unat c mod 64) = b64 (unat c' mod 64)"
      and r: "base64 bs = base64 bs'" by simp_all
    from bytes1_eq [OF e(1,2) div_bounds(1) div_bounds(1)]
    have a: "a = a'" and d: "unat b div 16 = unat b' div 16" by simp_all
    from bytes2_eq [OF d e(3) div_bounds(2) div_bounds(2)]
    have b: "b = b'" and d': "unat c div 64 = unat c' div 64" by simp_all
    from bytes3_eq [OF d' e(4)] have c: "c = c'" .
    from "4.IH" [OF r] a b c ys show ?thesis by simp
  qed
qed

lemma take_base64: "take (4 * k) (base64 bs) = base64 (take (3 * k) bs)"
proof (induction bs arbitrary: k rule: base64.induct)
  case 1
  show ?case by simp
next
  case (2 a)
  show ?case by (cases k) simp_all
next
  case (3 a b)
  show ?case by (cases k) simp_all
next
  case (4 a b c bs)
  show ?case
  proof (cases k)
    case 0
    then show ?thesis by simp
  next
    case (Suc m)
    have a: "4 * Suc m = Suc (Suc (Suc (Suc (4 * m))))" and b: "3 * Suc m = Suc (Suc (Suc (3 * m)))"
      by simp_all
    show ?thesis unfolding Suc a b using 4 [of m] by simp
  qed
qed

lemma articleId_take48: "articleId u = base64 (take 48 (utf8 u))"
  using take_base64 [of 16 "utf8 u"] by (simp add: articleId_def slice_from_0)

lemma utf8_ascii: "isAscii s \<Longrightarrow> utf8 s = map (\<lambda>c. of_nat (unat c)) s"
  by (induction s) (simp_all add: isAscii_def)

lemma ascii_byte_inj:
  assumes "unat (c :: jschar) < 0x80" "unat (d :: jschar) < 0x80"
    and "(of_nat (unat c) :: byte) = of_nat (unat d)"
  shows "c = d"
proof -
  from assms(3) have "unat (of_nat (unat c) :: byte) = unat (of_nat (unat d) :: byte)"
    by (simp only:)
  with assms(1,2) have "unat c = unat d" by (simp add: unat_of_nat del: of_nat_unat)
  then show ?thesis by (simp add: word_unat_eq_iff)
qed

lemma take_utf8_ascii:
  assumes "isAscii s" "isAscii s'"
  shows "take n (utf8 s) = take n (utf8 s') \<longleftrightarrow> take n s = take n s'"
proof -
  let ?f = "\<lambda>c :: jschar. (of_nat (unat c) :: byte)"
  have "inj_on ?f (set (take n s) \<union> set (take n s'))"
  proof (rule inj_onI)
    fix x y assume "x \<in> set (take n s) \<union> set (take n s')" "y \<in> set (take n s) \<union> set (take n s')"
      and e: "?f x = ?f y"
    then have "x \<in> set s \<union> set s'" "y \<in> set s \<union> set s'"
      by (auto dest: in_set_takeD)
    with assms have "unat x < 0x80" "unat y < 0x80" by (auto simp: isAscii_def list_all_iff)
    with e show "x = y" by (rule ascii_byte_inj [rotated 2])
  qed
  then have "map ?f (take n s) = map ?f (take n s') \<longleftrightarrow> take n s = take n s'"
    by (rule inj_on_map_eq_map)
  with assms show ?thesis by (simp add: utf8_ascii take_map)
qed

lemma articleId_take64: "articleId u = take 64 (base64 (utf8 u))"
  by (simp add: articleId_def slice_from_0)

lemma articleId_eq_iff: "articleId x = articleId y \<longleftrightarrow> take 48 (utf8 x) = take 48 (utf8 y)"
  using base64_inj by (auto simp: articleId_take48)

text \<open>The id of some URLs: the test vectors of RFC 4648, one character for each length of
  the UTF-8 encoding, a lone surrogate, and a URL longer than 48 characters.\<close>

lemma articleId_examples:
  "articleId (js ''f'') = js ''Zg==''"
  "articleId (js ''fo'') = js ''Zm8=''"
  "articleId (js ''foobar'') = js ''Zm9vYmFy''"
  "articleId [0xE9] = js ''w6k=''"
  "articleId [0x20AC] = js ''4oKs''"
  "articleId [0xD83D, 0xDE00] = js ''8J+YgA==''"
  "articleId [0xD83D] = js ''77+9''"
  "articleId (js ''https://example.com/news/1'') = js ''aHR0cHM6Ly9leGFtcGxlLmNvbS9uZXdzLzE=''"
  "articleId firstStoryUrl
     = js ''aHR0cHM6Ly93d3cuZXhhbXBsZS5jb20vMjAyNS8wNC8wMS93b3JsZC9ldXJvcGUv''"
  "articleId otherStoryUrl
     = js ''aHR0cHM6Ly93d3cuZXhhbXBsZS5jb20vMjAyNS8wNC8wMS93b3JsZC9ldXJvcGUv''"
  by (simp_all add: articleId_take48 firstStoryUrl_def otherStoryUrl_def js_def b64_def
      base64Alphabet_def)

subsection \<open>The URL pattern\<close>

lemma matchItems_Plus_end:
  "matchItems [Plus k] s =
     (if takeWhile (inCls k) s = [] then None else Some ([], dropWhile (inCls k) s))"
proof (cases "length (takeWhile (inCls k) s)")
  case 0
  then show ?thesis by (simp add: greedy_def)
next
  case (Suc n)
  have "drop (Suc n) s = dropWhile (inCls k) s"
    using drop_run [of "inCls k" s] Suc by simp
  moreover have "takeWhile (inCls k) s \<noteq> []" using Suc by auto
  ultimately show ?thesis using Suc by (simp add: greedy_def)
qed

lemma regexSearch_None:
  "regexSearch its s = None \<Longrightarrow> j \<le> length s \<Longrightarrow> matchItems its (drop j s) = None"
proof (induction s arbitrary: j)
  case Nil
  then show ?case by (auto split: option.splits)
next
  case (Cons x xs)
  then have a: "matchItems its (x # xs) = None" and b: "regexSearch its xs = None"
    by (auto split: option.splits)
  show ?case
  proof (cases j)
    case 0
    with a show ?thesis by simp
  next
    case (Suc i)
    with Cons.IH [OF b, of i] Cons.prems(2) show ?thesis by simp
  qed
qed

lemma inCls_NotSpace: "inCls NotSpace = nonSpace"
  by (rule ext) (simp add: nonSpace_def)

lemma matchItems_urlRegex:
  "matchItems urlRegex s =
     (case afterScheme s of
        None \<Rightarrow> None
      | Some r \<Rightarrow> if takeWhile nonSpace r = [] then None else Some ([], dropWhile nonSpace r))"
  unfolding urlRegex_def afterScheme_def
  by (simp add: js_def matchItems_Plus_end inCls_NotSpace
      del: matchItems.simps(4) takeWhile_eq_Nil_iff split: list.split)

lemma afterScheme_Some:
  assumes "afterScheme s = Some r"
  shows "\<exists>scheme. s = scheme @ r \<and> takeWhile nonSpace scheme = scheme \<and> prefix (js ''http'') scheme"
proof (cases "prefix (js ''https://'') s")
  case True
  then obtain t where s: "s = js ''https://'' @ t" by (auto simp: prefix_def)
  moreover from s have "drop 8 s = t" by (simp add: js_def)
  moreover have "takeWhile nonSpace (js ''https://'') = js ''https://''"
    by (simp add: js_def nonSpace_def isSpace_def)
  moreover have "prefix (js ''http'') (js ''https://'')" by (simp add: js_def)
  ultimately show ?thesis using assms True by (auto simp: afterScheme_def)
next
  case False
  with assms have p: "prefix (js ''http://'') s" and r: "r = drop 7 s"
    by (auto simp: afterScheme_def split: if_splits)
  from p obtain t where s: "s = js ''http://'' @ t" by (auto simp: prefix_def)
  moreover from s have "drop 7 s = t" by (simp add: js_def)
  moreover have "takeWhile nonSpace (js ''http://'') = js ''http://''"
    by (simp add: js_def nonSpace_def isSpace_def)
  moreover have "prefix (js ''http'') (js ''http://'')" by (simp add: js_def)
  ultimately show ?thesis using r by auto
qed

lemma takeWhile_all_then: "takeWhile P xs = xs \<Longrightarrow> takeWhile P (xs @ ys) = xs @ takeWhile P ys"
  by (induction xs) (auto split: if_splits)

lemma matched_run:
  assumes "afterScheme s = Some r"
  shows "take (length s - length (dropWhile nonSpace r)) s = takeWhile nonSpace s"
proof -
  from afterScheme_Some [OF assms] obtain scheme where
    s: "s = scheme @ r" and n: "takeWhile nonSpace scheme = scheme" by blast
  have t: "takeWhile nonSpace s = scheme @ takeWhile nonSpace r"
    unfolding s using n by (rule takeWhile_all_then)
  have "length s - length (dropWhile nonSpace r) = length scheme + length (takeWhile nonSpace r)"
    using run_length [of nonSpace r] s by simp
  then have "take (length s - length (dropWhile nonSpace r)) s = scheme @ take (length (takeWhile nonSpace r)) r"
    using s by simp
  with t show ?thesis by (simp add: take_run)
qed

lemma matchItems_urlRegex_None: "matchItems urlRegex s = None \<longleftrightarrow> \<not> urlStartsAt s"
  by (auto simp: matchItems_urlRegex urlStartsAt_def takeWhile_eq_Nil_iff split: option.splits)

lemma matchItems_urlRegex_Some:
  assumes "matchItems urlRegex s = Some (caps, rest)"
  shows "urlStartsAt s \<and> take (length s - length rest) s = takeWhile nonSpace s"
proof -
  from assms obtain r where r: "afterScheme s = Some r" and t: "takeWhile nonSpace r \<noteq> []"
    and rest: "rest = dropWhile nonSpace r"
    by (auto simp: matchItems_urlRegex simp del: takeWhile_eq_Nil_iff split: option.splits if_splits)
  from r t have "urlStartsAt s" by (auto simp: urlStartsAt_def takeWhile_eq_Nil_iff)
  with matched_run [OF r] rest show ?thesis by simp
qed

lemma extractUrlFromQuery_search:
  "extractUrlFromQuery q =
    (case regexSearch urlRegex q of
      None \<Rightarrow> None
    | Some (k, caps, rest) \<Rightarrow> Some (take (length q - k - length rest) (drop k q)))"
  by (simp add: extractUrlFromQuery_def stringMatch_def regexExec_def split: option.split)

lemma regexSearch_urlRegex:
  "(case regexSearch urlRegex q of
      None \<Rightarrow> None
    | Some (k, caps, rest) \<Rightarrow> Some (take (length q - k - length rest) (drop k q))) = firstUrl q"
proof (induction q)
  case Nil
  have "matchItems urlRegex [] = None"
    by (simp add: matchItems_urlRegex_None urlStartsAt_def afterScheme_def js_def)
  then show ?case by simp
next
  case (Cons x xs)
  show ?case
  proof (cases "matchItems urlRegex (x # xs)")
    case None
    then have "\<not> urlStartsAt (x # xs)" by (simp add: matchItems_urlRegex_None)
    with None Cons show ?thesis by (auto split: option.splits)
  next
    case (Some r)
    obtain caps rest where r: "r = (caps, rest)" by (cases r)
    from matchItems_urlRegex_Some [OF Some [unfolded r]] Some r show ?thesis by simp
  qed
qed

lemma extractUrlFromQuery_several:
  "extractUrlFromQuery (js ''compare https://a.b/1 with http://c.d/2'') = Some (js ''https://a.b/1'')"
  by code_simp

lemma extractUrlFromQuery_http:
  assumes "extractUrlFromQuery q = Some u"
  shows "u \<noteq> [] \<and> prefix (js ''http'') u \<and> q \<noteq> []"
proof -
  from assms have f: "firstUrl q = Some u"
    by (simp only: extractUrlFromQuery_search regexSearch_urlRegex)
  then have "\<exists>s. urlStartsAt s \<and> u = takeWhile nonSpace s"
    by (induction q) (auto split: if_splits)
  then obtain s r where r: "afterScheme s = Some r" and u: "u = takeWhile nonSpace s"
    by (auto simp: urlStartsAt_def split: option.splits)
  from afterScheme_Some [OF r] obtain scheme where
    s: "s = scheme @ r" and n: "takeWhile nonSpace scheme = scheme" and p: "prefix (js ''http'') scheme"
    by blast
  have "u = scheme @ takeWhile nonSpace r"
    unfolding u s using n by (rule takeWhile_all_then)
  with p have "prefix (js ''http'') u" by (auto simp: prefix_def)
  moreover from this have "u \<noteq> []" by (auto simp: js_def)
  moreover from f have "q \<noteq> []" by auto
  ultimately show ?thesis by simp
qed

subsection \<open>The citation loop\<close>

lemma find_url: "find (\<lambda>a. url a = Some u) arts = Some a \<Longrightarrow> a \<in> set arts \<and> url a = Some u"
  by (auto simp: find_Some_iff)

lemma sourcesLoop_invariant:
  "sourcesLoop arts s i used srcs = (out, i') \<Longrightarrow>
   set srcs \<subseteq> set arts \<Longrightarrow> distinct (map url srcs) \<Longrightarrow> url ` set srcs \<subseteq> Some ` used \<Longrightarrow>
   set out \<subseteq> set arts \<and> distinct (map url out) \<and> i' = 0"
proof (induction arts s i used srcs rule: sourcesLoop.induct)
  case (1 arts s i used srcs)
  show ?case
  proof (cases "regexExec sourceRegex s i")
    case (Pair r j)
    show ?thesis
    proof (cases r)
      case None
      with Pair "1.prems" have "out = srcs" "i' = j"
        by (simp_all add: sourcesLoop.simps [of arts s i])
      moreover from Pair None have "j = 0"
        by (auto simp: regexExec_def split: if_splits option.splits)
      ultimately show ?thesis using "1.prems" by simp
    next
      case (Some m)
      let ?u = "groups m ! 1"
      show ?thesis
      proof (cases "?u \<in> used")
        case True
        with Pair Some "1.prems"(1) have "sourcesLoop arts s j used srcs = (out, i')"
          by (simp add: sourcesLoop.simps [of arts s i])
        from "1.IH"(1) [OF Pair [symmetric] Some refl True this "1.prems"(2,3,4)]
        show ?thesis .
      next
        case False
        show ?thesis
        proof (cases "find (\<lambda>a. url a = Some ?u) arts")
          case None
          with False Pair Some "1.prems"(1) have "sourcesLoop arts s j used srcs = (out, i')"
            by (simp add: sourcesLoop.simps [of arts s i])
          from "1.IH"(2) [OF Pair [symmetric] Some refl False None this "1.prems"(2,3,4)]
          show ?thesis .
        next
          case found: (Some a)
          with False Pair Some "1.prems"(1)
          have run: "sourcesLoop arts s j (insert ?u used) (srcs @ [a]) = (out, i')"
            by (simp add: sourcesLoop.simps [of arts s i])
          from find_url [OF found] have a: "a \<in> set arts" "url a = Some ?u" by simp_all
          have s: "set (srcs @ [a]) \<subseteq> set arts" using a "1.prems"(2) by simp
          have "Some ?u \<notin> url ` set srcs" using False "1.prems"(4) by auto
          then have d: "distinct (map url (srcs @ [a]))" using a "1.prems"(3) by simp
          have u: "url ` set (srcs @ [a]) \<subseteq> Some ` insert ?u used"
            using a "1.prems"(4) by auto
          from "1.IH"(3) [OF Pair [symmetric] Some refl False found run s d u]
          show ?thesis .
        qed
      qed
    qed
  qed
qed

lemma sourcesLoop_cited:
  "sourcesLoop arts s i used srcs = (out, i') \<Longrightarrow>
   url ` set out \<subseteq> url ` set srcs \<union> Some ` set (citedUrls s i)"
proof (induction arts s i used srcs rule: sourcesLoop.induct)
  case (1 arts s i used srcs)
  show ?case
  proof (cases "regexExec sourceRegex s i")
    case (Pair r j)
    show ?thesis
    proof (cases r)
      case None
      with Pair "1.prems" show ?thesis
        by (simp add: sourcesLoop.simps [of arts s i])
    next
      case (Some m)
      let ?u = "groups m ! 1"
      have c: "citedUrls s i = ?u # citedUrls s j"
        using Pair Some by (simp add: citedUrls.simps [of s i])
      show ?thesis
      proof (cases "?u \<in> used")
        case True
        with Pair Some "1.prems"(1) have "sourcesLoop arts s j used srcs = (out, i')"
          by (simp add: sourcesLoop.simps [of arts s i])
        from "1.IH"(1) [OF Pair [symmetric] Some refl True this] c
        show ?thesis by auto
      next
        case False
        show ?thesis
        proof (cases "find (\<lambda>a. url a = Some ?u) arts")
          case None
          with False Pair Some "1.prems"(1) have "sourcesLoop arts s j used srcs = (out, i')"
            by (simp add: sourcesLoop.simps [of arts s i])
          from "1.IH"(2) [OF Pair [symmetric] Some refl False None this] c
          show ?thesis by auto
        next
          case found: (Some a)
          with False Pair Some "1.prems"(1)
          have run: "sourcesLoop arts s j (insert ?u used) (srcs @ [a]) = (out, i')"
            by (simp add: sourcesLoop.simps [of arts s i])
          from find_url [OF found] have a: "url a = Some ?u" by simp
          from "1.IH"(3) [OF Pair [symmetric] Some refl False found run] c a
          show ?thesis by auto
        qed
      qed
    qed
  qed
qed

subsection \<open>The text between the braces\<close>

lemma indexOf_notin: "c \<notin> set s \<Longrightarrow> indexOf s c = -1"
  by (induction s) auto

lemma indexOf_first: "c \<notin> set pre \<Longrightarrow> indexOf (pre @ c # r) c = int (length pre)"
  by (induction pre) (auto simp: Let_def)

lemma lastIndexOf_notin: "c \<notin> set s \<Longrightarrow> lastIndexOf s c = -1"
  by (induction s) (auto simp: Let_def)

lemma lastIndexOf_last: "c \<notin> set post \<Longrightarrow> lastIndexOf (r @ c # post) c = int (length r)"
  by (induction r) (auto simp: Let_def lastIndexOf_notin)

lemma lastIndexOf_ignores: "c \<notin> set ys \<Longrightarrow> lastIndexOf (xs @ ys) c = lastIndexOf xs c"
  by (induction xs) (auto simp: Let_def lastIndexOf_notin)

lemma lastIndexOf_range: "- 1 \<le> lastIndexOf s c \<and> lastIndexOf s c < int (length s)"
  by (induction s) (auto simp: Let_def)

lemma lastIndexOf_end:
  "s \<noteq> [] \<Longrightarrow> lastIndexOf s c = int (length s) - 1 \<Longrightarrow> last s = c"
proof (induction s)
  case Nil
  then show ?case by simp
next
  case (Cons x xs)
  show ?case
  proof (cases "xs = []")
    case True
    with Cons.prems show ?thesis by (auto simp: Let_def split: if_splits)
  next
    case False
    have "0 \<le> lastIndexOf xs c"
    proof (rule ccontr)
      assume "\<not> 0 \<le> lastIndexOf xs c"
      with Cons.prems(2) False show False by (auto simp: Let_def split: if_splits)
    qed
    with Cons.prems(2) have "lastIndexOf xs c = int (length xs) - 1" by (simp add: Let_def)
    with Cons.IH [OF False] False show ?thesis by simp
  qed
qed

lemma drop_to_last:
  assumes "s \<noteq> []"
  shows "drop (length s - 1) s = [last s]"
proof -
  from assms have "butlast s @ [last s] = s" by simp
  then have "drop (length (butlast s)) s = [last s]" by (metis append_eq_conv_conj)
  then show ?thesis by simp
qed

lemma slice_from_last:
  assumes "s \<noteq> []" "0 \<le> e" "e \<le> int (length s)"
  shows "slice s (- 1) e = take (nat (e - (int (length s) - 1))) (drop (length s - 1) s)"
proof -
  have len: "1 \<le> int (length s)" using assms(1) by (cases s) simp_all
  then have f: "max (int (length s) + - 1) 0 = int (length s) - 1"
    "max (int (length s) - 1) 0 = int (length s) - 1" by simp_all
  have t: "min e (int (length s)) = e" using assms(3) by simp
  have n: "nat (int (length s) - 1) = length s - 1" by simp
  have m: "nat (max x 0) = nat x" for x :: int by simp
  show ?thesis using assms(2) by (simp add: slice_def Let_def f t n m)
qed

lemma slice_without_span:
  assumes "\<not> braceSpan s"
  shows "slice s (indexOf s 0x7B) (lastIndexOf s 0x7D + 1) = [] \<or>
         slice s (indexOf s 0x7B) (lastIndexOf s 0x7D + 1) = [0x7D]"
proof (cases "0x7B \<in> set s")
  case False
  then have i: "indexOf s 0x7B = -1" by (rule indexOf_notin)
  have r: "- 1 \<le> lastIndexOf s 0x7D \<and> lastIndexOf s 0x7D < int (length s)"
    by (rule lastIndexOf_range)
  show ?thesis
  proof (cases "s = []")
    case True
    then show ?thesis by (simp add: slice_def)
  next
    case nonempty: False
    show ?thesis
    proof (cases "lastIndexOf s 0x7D = int (length s) - 1")
      case True
      from lastIndexOf_end [OF nonempty True] drop_to_last [OF nonempty]
      have "drop (length s - 1) s = [0x7D]" by simp
      moreover have "slice s (- 1) (int (length s) - 1 + 1) =
          take (nat (int (length s) - 1 + 1 - (int (length s) - 1))) (drop (length s - 1) s)"
        by (rule slice_from_last [OF nonempty]) simp_all
      ultimately have "slice s (indexOf s 0x7B) (lastIndexOf s 0x7D + 1) = [0x7D]"
        by (simp add: i True)
      then show ?thesis ..
    next
      case False
      with r have le: "lastIndexOf s 0x7D + 1 \<le> int (length s) - 1" by simp
      have "slice s (- 1) (lastIndexOf s 0x7D + 1) =
          take (nat (lastIndexOf s 0x7D + 1 - (int (length s) - 1))) (drop (length s - 1) s)"
        using r by (intro slice_from_last [OF nonempty]) simp_all
      with le have "slice s (indexOf s 0x7B) (lastIndexOf s 0x7D + 1) = []"
        by (simp add: i)
      then show ?thesis ..
    qed
  qed
next
  case True
  let ?P = "\<lambda>c. c \<noteq> (0x7B :: jschar)"
  from True obtain r where d: "dropWhile ?P s = 0x7B # r"
    by (metis (mono_tags, lifting) dropWhile_eq_Nil_conv hd_dropWhile list.collapse)
  have s: "s = takeWhile ?P s @ 0x7B # r" using d by (metis takeWhile_dropWhile_id)
  have n: "0x7B \<notin> set (takeWhile ?P s)" by (auto dest: set_takeWhileD)
  have i: "indexOf s 0x7B = int (length (takeWhile ?P s))"
    using indexOf_first [OF n, of r] s by simp
  from assms d have "0x7D \<notin> set (0x7B # r)" by (simp add: braceSpan_def)
  then have "lastIndexOf s 0x7D = lastIndexOf (takeWhile ?P s) 0x7D"
    using lastIndexOf_ignores [of "0x7D" "0x7B # r" "takeWhile ?P s"] s by simp
  moreover have "lastIndexOf (takeWhile ?P s) 0x7D < int (length (takeWhile ?P s))"
    using lastIndexOf_range by blast
  ultimately have le: "lastIndexOf s 0x7D + 1 \<le> int (length (takeWhile ?P s))" by simp
  have "0 \<le> lastIndexOf s 0x7D + 1"
    using lastIndexOf_range [of s "0x7D"] by simp
  with le have "slice s (indexOf s 0x7B) (lastIndexOf s 0x7D + 1) = []"
    using length_takeWhile_le [of ?P s] by (simp add: slice_def i Let_def max_def min_def)
  then show ?thesis ..
qed

lemma slice_with_span:
  assumes "s = pre @ 0x7B # mid @ 0x7D # post" "0x7B \<notin> set pre" "0x7D \<notin> set post"
  shows "slice s (indexOf s 0x7B) (lastIndexOf s 0x7D + 1) = 0x7B # mid @ [0x7D]"
proof -
  have i: "indexOf s 0x7B = int (length pre)"
    unfolding assms(1) using assms(2) by (rule indexOf_first)
  have "lastIndexOf ((pre @ 0x7B # mid) @ 0x7D # post) 0x7D = int (length (pre @ 0x7B # mid))"
    using assms(3) by (rule lastIndexOf_last)
  then have l: "lastIndexOf s 0x7D = int (length pre + length mid + 1)"
    using assms(1) by simp
  have "take (length mid + 2) (drop (length pre) s) = 0x7B # mid @ [0x7D]"
    using assms(1) by simp
  moreover have "nat (int (length pre + length mid + 1) + 1 - int (length pre)) = length mid + 2"
    by simp
  moreover have "int (length pre + length mid + 1) + 1 \<le> int (length s)"
    using assms(1) by simp
  ultimately show ?thesis
    by (simp add: slice_def i l Let_def max_def min_def)
qed

lemma braceSpan_iff:
  "braceSpan s \<longleftrightarrow>
   (\<exists>pre mid post. s = pre @ 0x7B # mid @ 0x7D # post \<and> 0x7B \<notin> set pre \<and> 0x7D \<notin> set post)"
proof
  let ?P = "\<lambda>c. c \<noteq> (0x7B :: jschar)"
  assume "braceSpan s"
  then have m: "0x7D \<in> set (dropWhile ?P s)" by (simp add: braceSpan_def)
  then have "dropWhile ?P s \<noteq> []" by (metis empty_iff list.set(1))
  then obtain r where d: "dropWhile ?P s = 0x7B # r"
    by (metis (mono_tags, lifting) hd_dropWhile list.collapse)
  with m have "0x7D \<in> set r" by simp
  then obtain mid post where r: "r = mid @ 0x7D # post" "0x7D \<notin> set post"
    by (metis split_list_last)
  have "s = takeWhile ?P s @ 0x7B # mid @ 0x7D # post"
    using d r by (metis takeWhile_dropWhile_id)
  moreover have "0x7B \<notin> set (takeWhile ?P s)" by (auto dest: set_takeWhileD)
  ultimately show "\<exists>pre mid post. s = pre @ 0x7B # mid @ 0x7D # post \<and> 0x7B \<notin> set pre \<and> 0x7D \<notin> set post"
    using r(2) by blast
next
  assume "\<exists>pre mid post. s = pre @ 0x7B # mid @ 0x7D # post \<and> 0x7B \<notin> set pre \<and> 0x7D \<notin> set post"
  then obtain pre mid post where s: "s = pre @ 0x7B # mid @ 0x7D # post" and p: "0x7B \<notin> set pre"
    by blast
  from p have "dropWhile (\<lambda>c. c \<noteq> 0x7B) (pre @ 0x7B # mid @ 0x7D # post) = 0x7B # mid @ 0x7D # post"
    by (induction pre) auto
  then show "braceSpan s" by (simp add: braceSpan_def s)
qed

lemma fst_rethrow: "fst (rethrow label (m, w)) = m"
  by (cases m) (simp_all add: rethrow_def)

lemma parseBetweenBraces_without_span:
  assumes "rejectsNonJson env" "\<not> braceSpan s"
  shows "isl (parseBetweenBraces env s)"
  using slice_without_span [OF assms(2)] assms(1)
  by (auto simp: parseBetweenBraces_def rejectsNonJson_def Let_def)

lemma parseBetweenBraces_with_span:
  assumes "s = pre @ 0x7B # mid @ 0x7D # post" "0x7B \<notin> set pre" "0x7D \<notin> set post"
  shows "parseBetweenBraces env s = jsonParse env (0x7B # mid @ [0x7D])"
  using slice_with_span [OF assms] by (simp add: parseBetweenBraces_def Let_def)

text \<open>The first article processor parses the whole reply: there, prose around the JSON
  text is an error, reported as \<open>Invalid response format from Gemini.\<close>\<close>

lemma processArticle1_parses_whole_reply:
  assumes "fetchText env u = Inr html" and "html \<noteq> []"
    and "generateContent env (js ''gemini-2.5-pro-exp-03-25'')
           (cleaningPrompt1 (trim (h1All env html))
              (joinWith (nl @ nl) (map trim (paragraphs env html))) u) = Inr (Inr reply)"
    and "jsonParse env reply = Inl e"
  shows "fst (processArticle1 env w u) = Inl (Error (js ''Invalid response format from Gemini.''))"
  using assms
  by (simp add: processArticle1_def bindW_def bindE_def rethrowAs_def rethrow_def Let_def)

subsection \<open>Outcomes and the store\<close>

lemma store_logged [simp]: "store (logged l w) = store w"
  by (simp add: logged_def)

lemma console_logged [simp]: "console (logged l w) = console w @ [l]"
  by (simp add: logged_def)

lemma store_stored [simp]: "store (stored st w) = st"
  by (simp add: stored_def)

lemma console_stored [simp]: "console (stored st w) = console w"
  by (simp add: stored_def)

lemma rethrow_Inr: "rethrow label (m, w) = (Inr x, w') \<longleftrightarrow> m = Inr x \<and> w' = w"
  by (cases m) (auto simp: rethrow_def)

lemma rethrow_Inl:
  "rethrow label (m, w) = (Inl e, w') \<longleftrightarrow>
   m = Inl e \<and> w' = logged (ConsoleError [Val (JStr label), Thrown e]) w"
  by (cases m) (auto simp: rethrow_def)

lemma rethrow_store: "rethrow label (m, w) = (r, w') \<Longrightarrow> store w' = store w"
  by (cases m) (auto simp: rethrow_def)

lemma processArticle_store: "processArticle env w u = (r, w') \<Longrightarrow> store w' = store w"
  unfolding processArticle_def by (rule rethrow_store)

lemma searchArticles_store: "searchArticles env w q k = (r, w') \<Longrightarrow> store w' = store w"
  unfolding searchArticles_def by (rule rethrow_store)

lemma failed500_store: "store (snd (failed500 e w)) = store w"
  by (simp add: failed500_def)

lemma agentHandler_store: "store (snd (agentHandler env w query)) = store w"
proof (cases query)
  case (QString q)
  show ?thesis
  proof (cases "q = []")
    case True
    with QString show ?thesis by (simp add: agentHandler_def)
  next
    case False
    show ?thesis
    proof (cases "extractUrlFromQuery q")
      case None
      obtain r w1 where s: "searchArticles env w q 3 = (r, w1)"
        by (cases "searchArticles env w q 3")
      from searchArticles_store [OF s] have "store w1 = store w" .
      with QString False None s show ?thesis
        by (simp add: agentHandler_def failed500_def split: sum.split)
    next
      case (Some u)
      obtain r w1 where p: "processArticle env w u = (r, w1)"
        by (cases "processArticle env w u")
      from processArticle_store [OF p] have "store w1 = store w" .
      with QString False Some p show ?thesis
        by (simp add: agentHandler_def failed500_def split: sum.split)
    qed
  qed
qed (simp_all add: agentHandler_def)

lemma agentHandler_200:
  assumes "status (fst (agentHandler env w query)) = 200"
  shows "\<exists>q. query = QString q \<and> q \<noteq> [] \<and>
     (case extractUrlFromQuery q of
        Some u \<Rightarrow>
          (\<exists>a w1 t. processArticle env w u = (Inr a, w1) \<and>
             agentHandler env w query =
               (\<lparr>status = 200,
                 body = JObj [(''answer'', JStr t), (''sources'', JArr [sourceOf a])]\<rparr>, w1))
      | None \<Rightarrow>
          (\<exists>arts w1 t. searchArticles env w q 3 = (Inr arts, w1) \<and>
             agentHandler env w query =
               (\<lparr>status = 200,
                 body = JObj [(''answer'', JStr t), (''sources'', JArr (map sourceOf arts))]\<rparr>,
                w1)))"
  using assms
  by (auto simp: agentHandler_def failed500_def split: jsquery.splits option.splits prod.splits sum.splits if_splits)

lemma postAgent_200:
  assumes "sentStatus (fst (postAgent env w query)) = 200"
  shows "status (fst (agentHandler env w query)) = 200"
  using assms by (simp add: postAgent_def split: prod.splits)

lemma sentBody_postAgent:
  "sentBody (fst (postAgent env w query)) = jsonStringify (body (fst (agentHandler env w query)))"
  by (simp add: postAgent_def split: prod.splits)

lemma stringify_source:
  "\<exists>ps. jsonStringify (sourceOf a) = Some (JsonObject ps) \<and>
        distinct (map fst ps) \<and> set (map fst ps) \<subseteq> {''title'', ''url'', ''date''} \<and>
        map_of ps ''title'' = map_option JsonString (title a) \<and>
        map_of ps ''url'' = map_option JsonString (url a) \<and>
        map_of ps ''date'' = map_option JsonString (date a)"
  by (cases "title a"; cases "url a"; cases "date a") (simp_all add: sourceOf_def optVal_def)

lemma stringifyElements_sources:
  "stringifyElements (map sourceOf arts) = map (\<lambda>a. the (jsonStringify (sourceOf a))) arts"
  by (induction arts) (simp_all add: sourceOf_def)

lemma ingest_stores:
  assumes "ingest env st u = (Inr (a, n), st')"
  shows "\<exists>v. st' = st(articleId u \<mapsto> \<lparr>vid = articleId u, vvalues = v, metadata = Some a\<rparr>)"
proof -
  from assms obtain vec where p: "prepare env u = Inr (vec, a)" and up: "upsert env st vec = Inr st'"
    by (auto simp: ingest_def bindE_def split: sum.splits prod.splits)
  from p obtain v where "vec = \<lparr>vid = articleId u, vvalues = v, metadata = Some a\<rparr>"
    by (auto simp: prepare_def bindE_def Let_def split: sum.splits if_splits)
  with up show ?thesis by (auto simp: upsert_def split: option.splits)
qed

lemma eachMessage_success:
  assumes "payload msg = Some u" "u \<noteq> []" "prefix (js ''http'') u"
    and "ingest env (store w) u = (Inr (a, n), st)"
  shows "store (snd (eachMessage env w msg)) = st"
  using assms by (simp add: eachMessage_def Let_def)

text \<open>The ingestion listener stores the parsed article itself as metadata, whatever the
  lengths of its fields.\<close>

lemma listener_metadata_is_article:
  assumes "payload msg = Some u" "u \<noteq> []" "prefix (js ''http'') u"
    and "ingest env (store w) u = (Inr (a, n), st)"
  shows "map_option metadata (store (snd (eachMessage env w msg)) (articleId u)) = Some (Some a)"
  using eachMessage_success [OF assms] ingest_stores [OF assms(4)] by auto

lemma eachMessage_resolves: "fst (eachMessage env w msg) = Inr ()"
  by (simp add: eachMessage_def Let_def split: option.split prod.split sum.split)

lemma eachMessageQuery_resolves: "fst (eachMessageQuery env w msg) = Inr ()"
  by (simp add: eachMessageQuery_def Let_def split: option.split prod.split sum.split)

lemma consumerRun_resolving:
  assumes "\<And>w m. fst (handler w m) = Inr ()"
  shows "fst (consumerRun handler w ms) = Inr () \<and> snd (snd (consumerRun handler w ms)) = []"
proof (induction ms arbitrary: w)
  case Nil
  show ?case by simp
next
  case (Cons m ms)
  obtain r w' where h: "handler w m = (r, w')" by (cases "handler w m")
  with assms [of w m] have "r = Inr ()" by simp
  with h Cons [of w'] show ?case by simp
qed

lemma consumerRun_append:
  assumes "\<And>w m. fst (handler w m) = Inr ()"
  shows "consumerRun handler w (ms @ ms') =
         consumerRun handler (fst (snd (consumerRun handler w ms))) ms'"
proof (induction ms arbitrary: w)
  case Nil
  show ?case by simp
next
  case (Cons m ms)
  obtain r w' where h: "handler w m = (r, w')" by (cases "handler w m")
  with assms [of w m] have "r = Inr ()" by simp
  with h Cons [of w'] show ?case by simp
qed

lemma eachMessage_failure_logged:
  assumes "payload msg = Some u" "u \<noteq> []" "prefix (js ''http'') u"
    and "ingest env (store w) u = (Inl e, st)"
  shows "eachMessage env w msg =
    (Inr (),
     logged (ConsoleError [Val (JStr (js ''Failed to process article '' @ u @ js '':'')),
                           if instanceofError e then Val (JStr (message e)) else Thrown e])
       (stored st
          (logged (ConsoleLog [Val (JStr (js ''Processing article URL [Partition '' @
                                 numStr (partition msg) @ js '']: '' @ u))]) w)))"
  using assms by (simp add: eachMessage_def Let_def)

lemma eachMessageQuery_failure_logged:
  assumes "payload msg = Some q" "q \<noteq> []"
    and "answerQuery env
           (logged (ConsoleLog [Val (JStr (js ''Processing query [Partition '' @
                                  numStr (partition msg) @ js '']: '' @ q))]) w) q = (Inl e, w1)"
  shows "eachMessageQuery env w msg =
    (Inr (),
     logged (ConsoleError [Val (JStr (js ''Failed to process query '' @ q @ js '':'')), Thrown e]) w1)"
  using assms by (simp add: eachMessageQuery_def Let_def)

lemma buildVector_Inr:
  assumes "buildVector env a v = Inr vec"
  shows "\<exists>t c u. title a = Some t \<and> content a = Some c \<and> url a = Some u \<and>
     vec = \<lparr>vid = articleId u, vvalues = v,
            metadata = Some \<lparr>title = Some (take 1000 t), content = Some (take 5000 c),
                              url = Some u, date = Some (orToday env (date a))\<rparr>\<rparr>"
  using assms
  by (auto simp: buildVector_def bindE_def articleIdOf_def substringOf_def substring0_def
      split: option.splits)

lemma storeArticle2_Inr:
  assumes "storeArticle2 env w a = (Inr (), w')"
  shows "\<exists>v vec. buildVector env a v = Inr vec \<and> store w' = (store w)(vid vec \<mapsto> vec)"
proof -
  from assms obtain st t where
    "bindE (substringOf (content a) 1000) (\<lambda>c.
               bindE (embedContent env (toStr (title a) @ nl @ c)) (\<lambda>embedding.
                 bindE (buildVector env a embedding) (\<lambda>v.
                   bindE (upsert env (store w) v) (\<lambda>st.
                     bindE (substringOf (title a) 50) (\<lambda>t. Inr (st, t)))))) = Inr (st, t)"
    and w': "w' = logged (ConsoleLog [Val (JStr (js ''Stored article: '' @ t @ js ''...''))])
               (stored st w)"
    by (auto simp: storeArticle2_def rethrow_def split: sum.splits prod.splits)
  then obtain v vec where b: "buildVector env a v = Inr vec"
    and u: "upsert env (store w) vec = Inr st"
    by (auto simp: bindE_def split: sum.splits)
  from u w' have "store w' = (store w)(vid vec \<mapsto> vec)"
    by (auto simp: upsert_def split: option.splits)
  with b show ?thesis by blast
qed

lemma storeArticle1_Inr:
  assumes "storeArticle1 env w a = (Inr (), w')"
  shows "\<exists>v vec. buildVector env a v = Inr vec \<and> store w' = (store w)(vid vec \<mapsto> vec)"
proof -
  from assms obtain v vec st where
    b: "buildVector env a v = Inr vec" and u: "upsert env (store w) vec = Inr st"
    and s: "store w' = st"
    by (auto simp: storeArticle1_def rethrow_def rethrowAs_def bindW_def bindE_def
        split: sum.splits prod.splits)
  from u s have "store w' = (store w)(vid vec \<mapsto> vec)"
    by (auto simp: upsert_def split: option.splits)
  with b show ?thesis by blast
qed

lemma storeArticle_id:
  assumes "storeArticle1 env w a = (Inr (), w') \<or> storeArticle2 env w a = (Inr (), w')"
  shows "\<exists>u vec. url a = Some u \<and> vid vec = articleId u \<and> store w' = (store w)(vid vec \<mapsto> vec)"
proof -
  from assms storeArticle1_Inr storeArticle2_Inr obtain v vec where
    b: "buildVector env a v = Inr vec" and s: "store w' = (store w)(vid vec \<mapsto> vec)"
    by blast
  from buildVector_Inr [OF b] obtain u where "url a = Some u" "vid vec = articleId u"
    by auto
  with s show ?thesis by blast
qed

lemma eachMessage_id:
  assumes "payload msg = Some m" "prefix (js ''http'') m"
    and "ingest env (store w) m = (Inr (b, n), st)"
  shows "\<exists>vec. vid vec = articleId m \<and>
               store (snd (eachMessage env w msg)) = (store w)(vid vec \<mapsto> vec)"
proof -
  from assms(2) have "m \<noteq> []" by (auto simp: js_def)
  from eachMessage_success [OF assms(1) this assms(2,3)] ingest_stores [OF assms(3)]
  obtain v where "store (snd (eachMessage env w msg)) =
      (store w)(articleId m \<mapsto> \<lparr>vid = articleId m, vvalues = v, metadata = Some b\<rparr>)"
    by auto
  then have "vid \<lparr>vid = articleId m, vvalues = v, metadata = Some b\<rparr> = articleId m \<and>
     store (snd (eachMessage env w msg)) =
      (store w)(vid \<lparr>vid = articleId m, vvalues = v, metadata = Some b\<rparr> \<mapsto>
                 \<lparr>vid = articleId m, vvalues = v, metadata = Some b\<rparr>)"
    by simp
  then show ?thesis by blast
qed

subsection \<open>The examples, evaluated\<close>

lemma demo_citations:
  "sourcesLoop demoCandidates demoAnswer 0 {} [] = ([demoArticle ''1'', demoArticle ''2''], 0)"
  by code_simp

lemma demoArticle_fields:
  "title (demoArticle n) = Some (js n)"
  "content (demoArticle n) = Some (js ''text'')"
  "url (demoArticle n) = Some (js ''https://e.com/'' @ js n)"
  "date (demoArticle n) = Some (js ''2025-03-30'')"
  by (simp_all add: demoArticle_def)

lemma demoEnv_fields:
  "generateContent (demoEnv reply ms) = (\<lambda>model prompt. Inr (Inr reply))"
  "embedContent (demoEnv reply ms) = (\<lambda>t. Inr (length t))"
  "queryIndex (demoEnv reply ms) = (\<lambda>st v topK. Inr (take topK ms))"
  "upsertFault (demoEnv reply ms) = (\<lambda>v. None)"
  "today (demoEnv reply ms) = js ''2025-04-01''"
  "fetchText (demoEnv reply ms) = (\<lambda>u. Inr (js ''<h1>Title</h1><p>Body</p>''))"
  "h1First (demoEnv reply ms) = (\<lambda>html. js ''Title'')"
  "paragraphs (demoEnv reply ms) = (\<lambda>html. [js ''Body''])"
  by (simp_all add: demoEnv_def)

lemma mapMatch_demoMatch: "mapMatch (demoMatch n) = demoArticle n"
  by (simp add: mapMatch_def demoMatch_def demoArticle_def)

lemma demoQuery_no_url: "extractUrlFromQuery demoQuery = None"
  by code_simp

lemma demoCited_urls: "citedUrls demoCited 0 = [js ''https://e.com/1'']"
  by code_simp

lemma demoQuery_handled:
  "agentHandler (demoEnv demoCited [demoMatch ''1'', demoMatch ''2'', demoMatch ''3'']) emptyWorld
     (QString demoQuery)
   = (\<lparr>status = 200,
       body = JObj [(''answer'', JStr demoCited),
                    (''sources'', JArr [sourceOf (demoArticle ''1''), sourceOf (demoArticle ''2''),
                                        sourceOf (demoArticle ''3'')])]\<rparr>,
      emptyWorld)"
proof -
  have "demoQuery \<noteq> []" by (simp add: demoQuery_def js_def)
  then show ?thesis
    by (simp add: agentHandler_def demoQuery_no_url searchArticles_def rethrow_def bindE_def
        demoEnv_fields mapMatch_demoMatch contextLine_def substringOf_def demoArticle_fields)
qed

lemma demoEnv_parse:
  "jsonParse (demoEnv reply ms) =
     (\<lambda>s. if s = demoJson
          then Inr \<lparr>title = Some (js ''T''), content = Some (js ''C''),
                    url = Some (js ''https://e.com/1''), date = None\<rparr>
          else Inl (SyntaxError (js ''Unexpected token'')))"
  by (simp add: demoEnv_def)

lemma demoEnv_rejectsNonJson: "rejectsNonJson (demoEnv reply ms)"
  by (simp add: rejectsNonJson_def demoEnv_parse demoJson_def)

lemma demoUrlQuery_url: "extractUrlFromQuery demoUrlQuery = Some demoUrl"
  by code_simp

lemma demoWrapped_parsed:
  "parseBetweenBraces (demoEnv r ms) demoWrapped
     = Inr \<lparr>title = Some (js ''T''), content = Some (js ''C''),
            url = Some (js ''https://e.com/1''), date = None\<rparr>"
proof -
  have "demoWrapped = js ''Here is the JSON: '' @ 0x7B # demoMembers @ 0x7D # js '' Hope it helps!''"
    by (simp add: demoWrapped_def demoJson_def)
  moreover have "0x7B \<notin> set (js ''Here is the JSON: '')" "0x7D \<notin> set (js '' Hope it helps!'')"
    by (simp_all add: js_def)
  ultimately have "parseBetweenBraces (demoEnv r ms) demoWrapped
      = jsonParse (demoEnv r ms) (0x7B # demoMembers @ [0x7D])"
    by (rule parseBetweenBraces_with_span)
  then show ?thesis by (simp add: demoEnv_parse demoJson_def)
qed

lemma demoUrl_ingested:
  "ingest (demoEnv demoWrapped []) (store emptyWorld) demoUrl
     = (Inr (\<lparr>title = Some (js ''T''), content = Some (js ''C''),
               url = Some (js ''https://e.com/1''), date = None\<rparr>, 1),
        (store emptyWorld)(articleId demoUrl \<mapsto>
           \<lparr>vid = articleId demoUrl, vvalues = 3,
            metadata = Some \<lparr>title = Some (js ''T''), content = Some (js ''C''),
                              url = Some (js ''https://e.com/1''), date = None\<rparr>\<rparr>))"
proof -
  have "js ''<h1>Title</h1><p>Body</p>'' \<noteq> []" by (simp add: js_def)
  then show ?thesis
    by (simp add: ingest_def prepare_def bindE_def Let_def demoEnv_fields demoWrapped_parsed
        substringOf_def substring0_def lengthOf_def upsert_def toStr_def)
       (simp add: js_def nl_def numeral_3_eq_3)
qed

lemma undatedArticle_stored:
  "storeArticle2 (demoEnv [] []) emptyWorld undatedArticle
     = (Inr (),
        logged (ConsoleLog [Val (JStr (js ''Stored article: '' @ replicate 50 0x54 @ js ''...''))])
          (stored (Map.empty(articleId (js ''https://e.com/1'') \<mapsto>
               \<lparr>vid = articleId (js ''https://e.com/1''), vvalues = 2201,
                metadata = Some \<lparr>title = Some (replicate 1000 0x54),
                                  content = Some (replicate 5000 0x63),
                                  url = Some (js ''https://e.com/1''),
                                  date = Some (js ''2025-04-01'')\<rparr>\<rparr>))
             emptyWorld))"
  by (simp add: storeArticle2_def rethrow_def bindE_def buildVector_def articleIdOf_def
      substringOf_def substring0_def upsert_def orToday_def toStr_def demoEnv_fields
      undatedArticle_def emptyWorld_def nl_def)

lemma demoEnv_h1All: "h1All (demoEnv reply ms) = (\<lambda>html. js ''Title'')"
  by (simp add: demoEnv_def)

lemma demoWrapped_not_json: "demoWrapped \<noteq> demoJson"
  by (simp add: demoWrapped_def demoJson_def js_def)

lemma demoUrlQuery_handled:
  "agentHandler (demoEnv demoWrapped []) emptyWorld (QString demoUrlQuery)
   = (\<lparr>status = 200,
       body = JObj [(''answer'', JStr demoWrapped),
                    (''sources'',
                     JArr [sourceOf \<lparr>title = Some (js ''T''), content = Some (js ''C''),
                                     url = Some (js ''https://e.com/1''), date = None\<rparr>])]\<rparr>,
      emptyWorld)"
proof -
  have "demoUrlQuery \<noteq> []" "js ''<h1>Title</h1><p>Body</p>'' \<noteq> []"
    by (simp_all add: demoUrlQuery_def js_def)
  then show ?thesis
    by (simp add: agentHandler_def demoUrlQuery_url processArticle_def rethrow_def bindE_def
        demoEnv_fields demoWrapped_parsed Let_def)
qed

lemma story_stored:
  assumes "length t \<le> 1000"
  shows "fst (storeArticle2 (demoEnv [] []) w (story t u)) = Inr ()"
    and "store (snd (storeArticle2 (demoEnv [] []) w (story t u)))
     = (store w)(articleId u \<mapsto>
          \<lparr>vid = articleId u, vvalues = length (js t @ nl @ js ''text''),
           metadata = Some (story t u)\<rparr>)"
  using assms
  by (simp_all add: storeArticle2_def rethrow_def bindE_def buildVector_def articleIdOf_def
      substringOf_def substring0_def upsert_def orToday_def toStr_def demoEnv_fields story_def
      nl_def js_def)

lemma story_urls:
  "isAscii firstStoryUrl" "isAscii otherStoryUrl" "firstStoryUrl \<noteq> otherStoryUrl"
  "take 48 firstStoryUrl = take 48 otherStoryUrl"
  by (simp_all add: isAscii_def firstStoryUrl_def otherStoryUrl_def js_def)

subsection \<open>The Normalizer of the endpoint\<close>

text \<open>
  Let the page be fetched and the model reply with the text \<open>reply\<close>. When \<open>reply\<close> holds
  no \<open>{\<close> with a \<open>}\<close> after it, \<open>processArticle\<close> of server.ts parses the empty text or the
  text \<open>}\<close>, and so fails with the syntax error of \<open>JSON.parse\<close>, which it logs and returns
  to its caller as an error value. When \<open>reply\<close> is some prose, a \<open>{\<close>, a middle part, a
  \<open>}\<close> and more prose, the braces being the first \<open>{\<close> and the last \<open>}\<close>, its result is
  that of \<open>JSON.parse\<close> on the text from brace to brace, whatever the prose is.
\<close>

lemma processArticle_normalizer:
  assumes "rejectsNonJson env" and "fetchText env u = Inr html" and "html \<noteq> []"
    and "generateContent env (js ''gemini-1.5-pro'')
           (extractionPrompt (trim (h1First env html))
              (joinWith (nl @ nl) (map trim (paragraphs env html))) u) = Inr (Inr reply)"
  shows "(\<not> braceSpan reply \<longrightarrow>
            (\<exists>e. parseBetweenBraces env reply = Inl e \<and>
                 processArticle env w u =
                   (Inl e,
                    logged (ConsoleError
                              [Val (JStr (js ''Failed to process article '' @ u @ js '':'')),
                               Thrown e]) w))) \<and>
         (\<forall>pre mid post.
            reply = pre @ 0x7B # mid @ 0x7D # post \<and> 0x7B \<notin> set pre \<and> 0x7D \<notin> set post \<longrightarrow>
            fst (processArticle env w u) = jsonParse env (0x7B # mid @ [0x7D]))"
proof -
  have p: "processArticle env w u =
      rethrow (js ''Failed to process article '' @ u @ js '':'') (parseBetweenBraces env reply, w)"
    using assms(2,3,4) by (simp add: processArticle_def bindE_def Let_def)
  have "\<exists>e. parseBetweenBraces env reply = Inl e \<and>
                 processArticle env w u =
                   (Inl e,
                    logged (ConsoleError
                              [Val (JStr (js ''Failed to process article '' @ u @ js '':'')),
                               Thrown e]) w)" if "\<not> braceSpan reply"
  proof -
    from parseBetweenBraces_without_span [OF assms(1) that]
    obtain e where "parseBetweenBraces env reply = Inl e"
      by (cases "parseBetweenBraces env reply") simp_all
    then show ?thesis by (simp add: p rethrow_def)
  qed
  moreover have "fst (processArticle env w u) = jsonParse env (0x7B # mid @ [0x7D])"
    if "reply = pre @ 0x7B # mid @ 0x7D # post" "0x7B \<notin> set pre" "0x7D \<notin> set post"
    for pre mid post
    using parseBetweenBraces_with_span [OF that] by (simp add: p fst_rethrow)
  ultimately show ?thesis by blast
qed

lemma processArticle_normalizer_example:
  "rejectsNonJson (demoEnv demoRefusal []) \<and> \<not> braceSpan demoRefusal \<and>
   isl (fst (processArticle (demoEnv demoRefusal []) emptyWorld (js ''https://e.com/1''))) \<and>
   rejectsNonJson (demoEnv demoWrapped []) \<and>
   demoWrapped = js ''Here is the JSON: '' @ 0x7B # demoMembers @ 0x7D # js '' Hope it helps!'' \<and>
   fst (processArticle (demoEnv demoWrapped []) emptyWorld (js ''https://e.com/1''))
     = Inr \<lparr>title = Some (js ''T''), content = Some (js ''C''),
            url = Some (js ''https://e.com/1''), date = None\<rparr>"
proof -
  let ?u = "js ''https://e.com/1''" and ?html = "js ''<h1>Title</h1><p>Body</p>''"
  have html: "?html \<noteq> []" by (simp add: js_def)
  have n: "\<not> braceSpan demoRefusal" by (simp add: braceSpan_def demoRefusal_def js_def)
  have d: "demoWrapped = js ''Here is the JSON: '' @ 0x7B # demoMembers @ 0x7D # js '' Hope it helps!''"
    by (simp add: demoWrapped_def demoJson_def)
  have pre: "0x7B \<notin> set (js ''Here is the JSON: '')" and post: "0x7D \<notin> set (js '' Hope it helps!'')"
    by (simp_all add: js_def)
  have f: "fetchText (demoEnv r []) ?u = Inr ?html" for r
    by (simp add: demoEnv_fields)
  have g: "generateContent (demoEnv r []) (js ''gemini-1.5-pro'')
           (extractionPrompt (trim (h1First (demoEnv r []) ?html))
              (joinWith (nl @ nl) (map trim (paragraphs (demoEnv r []) ?html))) ?u) = Inr (Inr r)" for r
    by (simp add: demoEnv_fields)
  note refusal = processArticle_normalizer [OF demoEnv_rejectsNonJson f html g, of demoRefusal emptyWorld]
  note wrapped = processArticle_normalizer [OF demoEnv_rejectsNonJson f html g, of demoWrapped emptyWorld]
  from refusal [THEN conjunct1, rule_format, OF n]
  have 1: "isl (fst (processArticle (demoEnv demoRefusal []) emptyWorld ?u))"
    by auto
  from wrapped [THEN conjunct2, rule_format, OF conjI [OF d conjI [OF pre post]]]
  have "fst (processArticle (demoEnv demoWrapped []) emptyWorld ?u)
      = jsonParse (demoEnv demoWrapped []) (0x7B # demoMembers @ [0x7D])" .
  then have 2: "fst (processArticle (demoEnv demoWrapped []) emptyWorld ?u)
     = Inr \<lparr>title = Some (js ''T''), content = Some (js ''C''),
            url = Some (js ''https://e.com/1''), date = None\<rparr>"
    by (simp add: demoEnv_parse demoJson_def)
  from 1 2 n d demoEnv_rejectsNonJson show ?thesis by simp
qed

section \<open>The claims\<close>

subsection \<open>C1: the vector-store id\<close>

text \<open>
  Claim C1 (amended). The id under which \<open>storeArticle\<close> and the ingestion listener upsert
  the vector of an article is the base64 text of the UTF-8 encoding of the article's URL,
  cut to its first 64 characters; it depends on the URL text alone. Two URLs get the same
  id exactly when their UTF-8 encodings agree on the first 48 bytes: URLs of ASCII
  characters get two ids when they differ within their first 48 characters and one id
  when they agree there.
\<close>

theorem vector_id_of_url:
  "(storeArticle1 env w a = (Inr (), w') \<or> storeArticle2 env w a = (Inr (), w') \<longrightarrow>
      (\<exists>u vec. url a = Some u \<and> vid vec = take 64 (base64 (utf8 u)) \<and>
               store w' = (store w)(vid vec \<mapsto> vec))) \<and>
   (payload msg = Some m \<and> prefix (js ''http'') m \<and>
    ingest env (store w) m = (Inr (b, n), st) \<longrightarrow>
      (\<exists>vec. vid vec = take 64 (base64 (utf8 m)) \<and>
             store (snd (eachMessage env w msg)) = (store w)(vid vec \<mapsto> vec))) \<and>
   (take 64 (base64 (utf8 x)) = take 64 (base64 (utf8 y)) \<longleftrightarrow>
      take 48 (utf8 x) = take 48 (utf8 y)) \<and>
   (isAscii x \<and> isAscii y \<longrightarrow>
      (take 64 (base64 (utf8 x)) = take 64 (base64 (utf8 y)) \<longleftrightarrow> take 48 x = take 48 y))"
proof -
  have 1: "\<exists>u vec. url a = Some u \<and> vid vec = take 64 (base64 (utf8 u)) \<and>
               store w' = (store w)(vid vec \<mapsto> vec)"
    if "storeArticle1 env w a = (Inr (), w') \<or> storeArticle2 env w a = (Inr (), w')"
    using storeArticle_id [OF that] by (simp only: articleId_take64)
  have 2: "\<exists>vec. vid vec = take 64 (base64 (utf8 m)) \<and>
             store (snd (eachMessage env w msg)) = (store w)(vid vec \<mapsto> vec)"
    if "payload msg = Some m" "prefix (js ''http'') m" "ingest env (store w) m = (Inr (b, n), st)"
    using eachMessage_id [OF that] by (simp only: articleId_take64)
  have 3: "take 64 (base64 (utf8 x)) = take 64 (base64 (utf8 y)) \<longleftrightarrow>
      take 48 (utf8 x) = take 48 (utf8 y)"
    using articleId_eq_iff [of x y] by (simp only: articleId_take64)
  have 4: "take 64 (base64 (utf8 x)) = take 64 (base64 (utf8 y)) \<longleftrightarrow> take 48 x = take 48 y"
    if "isAscii x" "isAscii y"
    using 3 take_utf8_ascii [OF that, of 48] by simp
  from 1 2 3 4 show ?thesis by blast
qed

text \<open>Two articles of one site with distinct URLs: they get one id, and storing the second
  overwrites the record of the first.\<close>

theorem articleId_collision:
  "firstStoryUrl \<noteq> otherStoryUrl \<and>
   articleId firstStoryUrl
     = js ''aHR0cHM6Ly93d3cuZXhhbXBsZS5jb20vMjAyNS8wNC8wMS93b3JsZC9ldXJvcGUv'' \<and>
   articleId otherStoryUrl
     = js ''aHR0cHM6Ly93d3cuZXhhbXBsZS5jb20vMjAyNS8wNC8wMS93b3JsZC9ldXJvcGUv'' \<and>
   store (snd (storeArticle2 (demoEnv [] [])
                 (snd (storeArticle2 (demoEnv [] []) emptyWorld (story ''First'' firstStoryUrl)))
                 (story ''Other'' otherStoryUrl)))
     = [js ''aHR0cHM6Ly93d3cuZXhhbXBsZS5jb20vMjAyNS8wNC8wMS93b3JsZC9ldXJvcGUv'' \<mapsto>
          \<lparr>vid = js ''aHR0cHM6Ly93d3cuZXhhbXBsZS5jb20vMjAyNS8wNC8wMS93b3JsZC9ldXJvcGUv'',
           vvalues = 10, metadata = Some (story ''Other'' otherStoryUrl)\<rparr>]"
proof -
  have "store (snd (storeArticle2 (demoEnv [] [])
                 (snd (storeArticle2 (demoEnv [] []) emptyWorld (story ''First'' firstStoryUrl)))
                 (story ''Other'' otherStoryUrl)))
     = [articleId firstStoryUrl \<mapsto>
          \<lparr>vid = articleId firstStoryUrl, vvalues = 10,
           metadata = Some (story ''Other'' otherStoryUrl)\<rparr>]"
    by (simp add: story_stored articleId_examples(9,10) emptyWorld_def)
       (simp add: js_def nl_def eval_nat_numeral)
  then show ?thesis
    by (simp only: articleId_examples(9,10) story_urls(3) simp_thms)
qed

theorem vector_id_of_url_witness:
  "storeArticle2 (demoEnv [] []) emptyWorld (story ''First'' firstStoryUrl)
     = (Inr (), snd (storeArticle2 (demoEnv [] []) emptyWorld (story ''First'' firstStoryUrl))) \<and>
   (\<exists>u vec. url (story ''First'' firstStoryUrl) = Some u \<and>
       vid vec = take 64 (base64 (utf8 u)) \<and>
       store (snd (storeArticle2 (demoEnv [] []) emptyWorld (story ''First'' firstStoryUrl)))
         = (store emptyWorld)(vid vec \<mapsto> vec)) \<and>
   prefix (js ''http'') demoUrl \<and>
   (\<exists>vec. vid vec = take 64 (base64 (utf8 demoUrl)) \<and>
       store (snd (eachMessage (demoEnv demoWrapped []) emptyWorld
                     \<lparr>partition = 0, payload = Some demoUrl\<rparr>))
         = (store emptyWorld)(vid vec \<mapsto> vec)) \<and>
   take 64 (base64 (utf8 demoUrl)) = js ''aHR0cHM6Ly9leGFtcGxlLmNvbS9uZXdzLzE='' \<and>
   isAscii firstStoryUrl \<and> isAscii otherStoryUrl \<and>
   take 64 (base64 (utf8 firstStoryUrl)) = take 64 (base64 (utf8 otherStoryUrl)) \<and>
   isAscii (js ''https://e.com/1'') \<and> isAscii (js ''https://e.com/2'') \<and>
   take 64 (base64 (utf8 (js ''https://e.com/1''))) \<noteq> take 64 (base64 (utf8 (js ''https://e.com/2'')))"
proof -
  let ?E = "demoEnv [] []" and ?A = "story ''First'' firstStoryUrl"
  let ?msg = "\<lparr>partition = 0, payload = Some demoUrl\<rparr>"
  have s: "storeArticle2 ?E emptyWorld ?A = (Inr (), snd (storeArticle2 ?E emptyWorld ?A))"
    using story_stored(1) [of "''First''" emptyWorld firstStoryUrl]
    by (cases "storeArticle2 ?E emptyWorld ?A") simp
  have p: "payload ?msg = Some demoUrl" by simp
  have h: "prefix (js ''http'') demoUrl" by (simp add: demoUrl_def js_def)
  have a: "isAscii (js ''https://e.com/1'')" "isAscii (js ''https://e.com/2'')"
    "take 48 (js ''https://e.com/1'') \<noteq> take 48 (js ''https://e.com/2'')"
    by (simp_all add: isAscii_def js_def)
  note t1 = vector_id_of_url [of ?E emptyWorld ?A "snd (storeArticle2 ?E emptyWorld ?A)",
      THEN conjunct1, rule_format, OF disjI2 [OF s]]
  note t2 = vector_id_of_url [where env = "demoEnv demoWrapped []" and w = emptyWorld and msg = ?msg
        and m = demoUrl,
      THEN conjunct2, THEN conjunct1, rule_format, OF conjI [OF p conjI [OF h demoUrl_ingested]]]
  note t3 = vector_id_of_url [where x = firstStoryUrl and y = otherStoryUrl,
      THEN conjunct2, THEN conjunct2, THEN conjunct2, rule_format,
      OF conjI [OF story_urls(1) story_urls(2)]]
  note t4 = vector_id_of_url [where x = "js ''https://e.com/1''" and y = "js ''https://e.com/2''",
      THEN conjunct2, THEN conjunct2, THEN conjunct2, rule_format,
      OF conjI [OF a(1) a(2)]]
  from t3 story_urls(4) have 3: "take 64 (base64 (utf8 firstStoryUrl)) = take 64 (base64 (utf8 otherStoryUrl))"
    by simp
  from t4 a(3) have 4: "take 64 (base64 (utf8 (js ''https://e.com/1''))) \<noteq> take 64 (base64 (utf8 (js ''https://e.com/2'')))"
    by simp
  have 5: "take 64 (base64 (utf8 demoUrl)) = js ''aHR0cHM6Ly9leGFtcGxlLmNvbS9uZXdzLzE=''"
    using articleId_examples(8) by (simp only: articleId_take64 demoUrl_def)
  from s t1 h t2 story_urls(1,2) 3 a(1,2) 4 5 show ?thesis by blast
qed

subsection \<open>C2: the stored metadata\<close>

text \<open>
  Claim C2 (amended). For every article that \<open>storeArticle\<close> (either version) stores, the
  vector is upserted under the id of the article's URL, and its metadata holds the first
  1000 characters of the title, the first 5000 characters of the content, the URL as it
  is, and the date as it is when the article has a non-empty date; an article without a
  date, or with an empty one, is stored with the current date.
\<close>

theorem storeArticle_metadata:
  assumes "storeArticle1 env w a = (Inr (), w') \<or> storeArticle2 env w a = (Inr (), w')"
  shows "\<exists>t c u v.
           title a = Some t \<and> content a = Some c \<and> url a = Some u \<and>
           store w' = (store w)(articleId u \<mapsto>
             \<lparr>vid = articleId u, vvalues = v,
              metadata = Some \<lparr>title = Some (take 1000 t), content = Some (take 5000 c),
                                url = Some u, date = Some (orToday env (date a))\<rparr>\<rparr>) \<and>
           length (take 1000 t) \<le> 1000 \<and> length (take 5000 c) \<le> 5000 \<and>
           orToday env (date a) =
             (case date a of None \<Rightarrow> today env | Some d \<Rightarrow> if d = [] then today env else d)"
proof -
  from assms storeArticle1_Inr storeArticle2_Inr obtain v vec where
    b: "buildVector env a v = Inr vec" and s: "store w' = (store w)(vid vec \<mapsto> vec)"
    by blast
  from buildVector_Inr [OF b] s show ?thesis
    by (auto simp: orToday_def)
qed

theorem storeArticle_date_counterexample:
  "date undatedArticle = Some [] \<and>
   map_option metadata
     (store (snd (storeArticle2 (demoEnv [] []) emptyWorld undatedArticle))
        (articleId (js ''https://e.com/1'')))
   = Some (Some \<lparr>title = Some (replicate 1000 0x54), content = Some (replicate 5000 0x63),
                  url = Some (js ''https://e.com/1''), date = Some (js ''2025-04-01'')\<rparr>) \<and>
   js ''2025-04-01'' \<noteq> []"
  by (simp add: undatedArticle_stored) (simp add: undatedArticle_def js_def)

theorem storeArticle_metadata_witness:
  "storeArticle2 (demoEnv [] []) emptyWorld undatedArticle
     = (Inr (),
        logged (ConsoleLog [Val (JStr (js ''Stored article: '' @ replicate 50 0x54 @ js ''...''))])
          (stored (Map.empty(articleId (js ''https://e.com/1'') \<mapsto>
               \<lparr>vid = articleId (js ''https://e.com/1''), vvalues = 2201,
                metadata = Some \<lparr>title = Some (replicate 1000 0x54),
                                  content = Some (replicate 5000 0x63),
                                  url = Some (js ''https://e.com/1''),
                                  date = Some (js ''2025-04-01'')\<rparr>\<rparr>))
             emptyWorld)) \<and>
   (\<exists>t c u v.
      title undatedArticle = Some t \<and> content undatedArticle = Some c \<and>
      url undatedArticle = Some u \<and> length t = 1200 \<and> length c = 6000 \<and>
      Map.empty(articleId (js ''https://e.com/1'') \<mapsto>
               \<lparr>vid = articleId (js ''https://e.com/1''), vvalues = 2201,
                metadata = Some \<lparr>title = Some (replicate 1000 0x54),
                                  content = Some (replicate 5000 0x63),
                                  url = Some (js ''https://e.com/1''),
                                  date = Some (js ''2025-04-01'')\<rparr>\<rparr>)
        = (store emptyWorld)(articleId u \<mapsto>
             \<lparr>vid = articleId u, vvalues = v,
              metadata = Some \<lparr>title = Some (take 1000 t), content = Some (take 5000 c),
                                url = Some u,
                                date = Some (orToday (demoEnv [] []) (date undatedArticle))\<rparr>\<rparr>) \<and>
      length (take 1000 t) \<le> 1000 \<and> length (take 5000 c) \<le> 5000)"
proof -
  from storeArticle_metadata [OF disjI2 [OF undatedArticle_stored]]
  obtain t c u v where
    f: "title undatedArticle = Some t" "content undatedArticle = Some c"
      "url undatedArticle = Some u"
    and s: "store (logged (ConsoleLog [Val (JStr (js ''Stored article: '' @ replicate 50 0x54 @ js ''...''))])
          (stored (Map.empty(articleId (js ''https://e.com/1'') \<mapsto>
               \<lparr>vid = articleId (js ''https://e.com/1''), vvalues = 2201,
                metadata = Some \<lparr>title = Some (replicate 1000 0x54),
                                  content = Some (replicate 5000 0x63),
                                  url = Some (js ''https://e.com/1''),
                                  date = Some (js ''2025-04-01'')\<rparr>\<rparr>))
             emptyWorld))
        = (store emptyWorld)(articleId u \<mapsto>
             \<lparr>vid = articleId u, vvalues = v,
              metadata = Some \<lparr>title = Some (take 1000 t), content = Some (take 5000 c),
                                url = Some u,
                                date = Some (orToday (demoEnv [] []) (date undatedArticle))\<rparr>\<rparr>)"
    and l: "length (take 1000 t) \<le> 1000" "length (take 5000 c) \<le> 5000"
    by blast
  from f have "length t = 1200" "length c = 6000" by (auto simp: undatedArticle_def)
  with f s l undatedArticle_stored show ?thesis by auto
qed

subsection \<open>C3: the sources of the endpoint\<close>

text \<open>
  Claim C3 (amended). When the query holds no URL and the endpoint answers 200, the
  \<open>sources\<close> array lists every article the Retriever returned for the query (title, url
  and date of each, in retrieval order), whatever the model's answer cites. Only
  \<open>generateResponse\<close>, which the endpoint does not call, filters the candidates by the
  citations matched in the answer.
\<close>

theorem agentHandler_sources_are_all_retrieved:
  assumes "extractUrlFromQuery q = None"
    and "status (fst (agentHandler env w (QString q))) = 200"
  shows "\<exists>v ms t w1.
           embedContent env q = Inr v \<and> queryIndex env (store w) v 3 = Inr ms \<and>
           agentHandler env w (QString q) =
             (\<lparr>status = 200,
               body = JObj [(''answer'', JStr t),
                            (''sources'', JArr (map sourceOf (map mapMatch ms)))]\<rparr>, w1)"
proof -
  from agentHandler_200 [OF assms(2)] assms(1) obtain arts w1 t where
    s: "searchArticles env w q 3 = (Inr arts, w1)" and
    h: "agentHandler env w (QString q) =
          (\<lparr>status = 200,
            body = JObj [(''answer'', JStr t), (''sources'', JArr (map sourceOf arts))]\<rparr>, w1)"
    by auto
  from s obtain v ms where "embedContent env q = Inr v" "queryIndex env (store w) v 3 = Inr ms"
    "arts = map mapMatch ms"
    by (auto simp: searchArticles_def rethrow_def bindE_def split: sum.splits)
  with h show ?thesis by blast
qed

theorem agentHandler_uncited_source_counterexample:
  "extractUrlFromQuery demoQuery = None \<and>
   agentHandler (demoEnv demoCited [demoMatch ''1'', demoMatch ''2'', demoMatch ''3'']) emptyWorld
     (QString demoQuery)
   = (\<lparr>status = 200,
       body = JObj [(''answer'', JStr demoCited),
                    (''sources'', JArr [sourceOf (demoArticle ''1''), sourceOf (demoArticle ''2''),
                                        sourceOf (demoArticle ''3'')])]\<rparr>,
      emptyWorld) \<and>
   citedUrls demoCited 0 = [js ''https://e.com/1''] \<and>
   url (demoArticle ''2'') = Some (js ''https://e.com/2'') \<and>
   js ''https://e.com/2'' \<notin> set (citedUrls demoCited 0)"
proof -
  have "js ''https://e.com/2'' \<noteq> js ''https://e.com/1''" by (simp add: js_def)
  then show ?thesis
    by (simp add: demoQuery_no_url demoQuery_handled demoCited_urls demoArticle_fields js_def)
qed

theorem agentHandler_sources_are_all_retrieved_witness:
  "extractUrlFromQuery demoQuery = None \<and>
   status (fst (agentHandler (demoEnv demoCited [demoMatch ''1'', demoMatch ''2'', demoMatch ''3''])
                  emptyWorld (QString demoQuery))) = 200 \<and>
   (\<exists>v ms t w1.
      embedContent (demoEnv demoCited [demoMatch ''1'', demoMatch ''2'', demoMatch ''3'']) demoQuery
        = Inr v \<and>
      queryIndex (demoEnv demoCited [demoMatch ''1'', demoMatch ''2'', demoMatch ''3''])
        (store emptyWorld) v 3 = Inr ms \<and>
      agentHandler (demoEnv demoCited [demoMatch ''1'', demoMatch ''2'', demoMatch ''3''])
        emptyWorld (QString demoQuery) =
        (\<lparr>status = 200,
          body = JObj [(''answer'', JStr t),
                       (''sources'', JArr (map sourceOf (map mapMatch ms)))]\<rparr>, w1))"
proof -
  have s: "status (fst (agentHandler (demoEnv demoCited [demoMatch ''1'', demoMatch ''2'', demoMatch ''3''])
                  emptyWorld (QString demoQuery))) = 200"
    by (simp add: demoQuery_handled)
  from agentHandler_sources_are_all_retrieved [OF demoQuery_no_url s] demoQuery_no_url s
  show ?thesis by blast
qed

subsection \<open>C4: the cited sources of the Answer Composer\<close>

text \<open>
  Claim C4. When the Answer Composer returns, the sources it reports are articles of the
  candidate list, no two of them carry the same URL, each of their URLs is the target of a
  citation that the regular expression matches in the answer, and running the extraction
  again over the same answer, from the state in which the first run leaves the regular
  expression (\<open>lastIndex\<close> back at 0), yields the same sources.
\<close>

theorem generateResponse_sources:
  assumes "generateResponse env w q arts = (Inr r, w')"
  shows "set (sources r) \<subseteq> set arts \<and> distinct (map url (sources r)) \<and>
         url ` set (sources r) \<subseteq> Some ` set (citedUrls (answer r) 0) \<and>
         sourcesLoop arts (answer r) 0 {} [] = (sources r, 0) \<and>
         sourcesLoop arts (answer r) (snd (sourcesLoop arts (answer r) 0 {} [])) {} []
           = (sources r, 0)"
proof -
  from assms obtain s where r: "r = \<lparr>answer = s, sources = fst (sourcesLoop arts s 0 {} [])\<rparr>"
    by (auto simp: generateResponse_def rethrow_def bindE_def split: sum.splits)
  obtain out i where run: "sourcesLoop arts s 0 {} [] = (out, i)"
    by (cases "sourcesLoop arts s 0 {} []")
  from sourcesLoop_invariant [OF run] have inv: "set out \<subseteq> set arts" "distinct (map url out)" "i = 0"
    by simp_all
  from sourcesLoop_cited [OF run] have "url ` set out \<subseteq> Some ` set (citedUrls s 0)"
    by simp
  with inv run r show ?thesis by simp
qed

theorem generateResponse_sources_witness:
  "generateResponse (demoEnv demoAnswer []) emptyWorld (js ''q'') demoCandidates
     = (Inr \<lparr>answer = demoAnswer, sources = [demoArticle ''1'', demoArticle ''2'']\<rparr>, emptyWorld) \<and>
   set [demoArticle ''1'', demoArticle ''2''] \<subseteq> set demoCandidates \<and>
   distinct (map url [demoArticle ''1'', demoArticle ''2'']) \<and>
   sourcesLoop demoCandidates demoAnswer (snd (sourcesLoop demoCandidates demoAnswer 0 {} [])) {} []
     = ([demoArticle ''1'', demoArticle ''2''], 0)"
proof -
  have h: "generateResponse (demoEnv demoAnswer []) emptyWorld (js ''q'') demoCandidates
     = (Inr \<lparr>answer = demoAnswer, sources = [demoArticle ''1'', demoArticle ''2'']\<rparr>, emptyWorld)"
    by (simp add: generateResponse_def rethrow_def bindE_def sourceLine_def substringOf_def
        demoEnv_fields demoArticle_fields demo_citations)
       (simp add: demoCandidates_def bindE_def sourceLine_def substringOf_def demoArticle_fields)
  from generateResponse_sources [OF h] h show ?thesis by simp
qed

subsection \<open>C5: the Normalizer\<close>

text \<open>
  Claim C5, at \<open>processArticle\<close> of the first unnamed source. The page is fetched and the
  model replies with the JSON text of an article, a sentence before it and a sentence
  after it. The claim has the prose tolerated, and \<open>processArticle\<close> of server.ts does
  return the article. \<open>processArticle\<close> of the first unnamed source hands the whole reply
  to \<open>JSON.parse\<close>, which rejects it: the processor fails with
  \<open>Invalid response format from Gemini.\<close> and stores nothing.
\<close>

theorem processArticle1_rejects_wrapped_json:
  "fst (processArticle1 (demoEnv demoWrapped []) emptyWorld demoUrl)
     = Inl (Error (js ''Invalid response format from Gemini.'')) \<and>
   store (snd (processArticle1 (demoEnv demoWrapped []) emptyWorld demoUrl)) = Map.empty \<and>
   fst (processArticle (demoEnv demoWrapped []) emptyWorld demoUrl)
     = Inr \<lparr>title = Some (js ''T''), content = Some (js ''C''),
            url = Some (js ''https://e.com/1''), date = None\<rparr>"
proof -
  have h: "js ''<h1>Title</h1><p>Body</p>'' \<noteq> []" by (simp add: js_def)
  have 1: "processArticle1 (demoEnv demoWrapped []) emptyWorld demoUrl
     = (Inl (Error (js ''Invalid response format from Gemini.'')),
        \<lparr>store = Map.empty,
         console =
           [ConsoleError [Val (JStr (js ''Error parsing Gemini response:'')),
                          Thrown (SyntaxError (js ''Unexpected token''))],
            ConsoleError [Val (JStr (js ''Error processing article:'')),
                          Thrown (Error (js ''Invalid response format from Gemini.''))]]\<rparr>)"
    using h
    by (simp add: processArticle1_def bindW_def bindE_def rethrowAs_def rethrow_def Let_def
        demoEnv_fields demoEnv_h1All demoEnv_parse demoWrapped_not_json logged_def emptyWorld_def)
  have 2: "fst (processArticle (demoEnv demoWrapped []) emptyWorld demoUrl)
     = Inr \<lparr>title = Some (js ''T''), content = Some (js ''C''),
            url = Some (js ''https://e.com/1''), date = None\<rparr>"
    using h
    by (simp add: processArticle_def rethrow_def bindE_def demoEnv_fields demoWrapped_parsed Let_def)
  from 1 2 show ?thesis by simp
qed

subsection \<open>C6: the Retriever\<close>

text \<open>
  Claim C6 (amended). The Retriever returns exactly one article per match that the vector
  store returns, in the same order, so no more than \<open>topK\<close> when the store honours
  \<open>topK\<close>. No match is dropped: a match whose metadata lacks \<open>url\<close> (or any other field,
  or that has no metadata at all) is returned as well, with that field undefined, and the
  mapping never fails.
\<close>

theorem searchArticles_maps_every_match:
  assumes "embedContent env q = Inr v" and "queryIndex env (store w) v topK = Inr ms"
  shows "searchArticles env w q topK = (Inr (map mapMatch ms), w) \<and>
         length (map mapMatch ms) = length ms \<and>
         (length ms \<le> topK \<longrightarrow> length (map mapMatch ms) \<le> topK) \<and>
         (\<forall>m \<in> set ms.
            title (mapMatch m) = (case metadata m of None \<Rightarrow> None | Some md \<Rightarrow> title md) \<and>
            content (mapMatch m) = (case metadata m of None \<Rightarrow> None | Some md \<Rightarrow> content md) \<and>
            url (mapMatch m) = (case metadata m of None \<Rightarrow> None | Some md \<Rightarrow> url md) \<and>
            date (mapMatch m) = (case metadata m of None \<Rightarrow> None | Some md \<Rightarrow> date md))"
  using assms
  by (auto simp: searchArticles_def rethrow_def bindE_def mapMatch_def split: option.splits)

theorem searchArticles_url_counterexample:
  "searchArticles (demoEnv [] [partialMatch]) emptyWorld (js ''topic'') 3
     = (Inr [\<lparr>title = Some (js ''No link''), content = None, url = None, date = None\<rparr>],
        emptyWorld)"
  by (simp add: searchArticles_def rethrow_def bindE_def mapMatch_def demoEnv_fields
      partialMatch_def)

theorem searchArticles_maps_every_match_witness:
  "embedContent (demoEnv [] [partialMatch]) (js ''topic'') = Inr 5 \<and>
   queryIndex (demoEnv [] [partialMatch]) (store emptyWorld) 5 3 = Inr [partialMatch] \<and>
   searchArticles (demoEnv [] [partialMatch]) emptyWorld (js ''topic'') 3
     = (Inr (map mapMatch [partialMatch]), emptyWorld) \<and>
   url (mapMatch partialMatch) = None"
proof -
  have e: "embedContent (demoEnv [] [partialMatch]) (js ''topic'') = Inr 5"
    by (simp add: demoEnv_fields js_def)
  have q: "queryIndex (demoEnv [] [partialMatch]) (store emptyWorld) 5 3 = Inr [partialMatch]"
    by (simp add: demoEnv_fields)
  from searchArticles_maps_every_match [OF e q] e q show ?thesis
    by (simp add: partialMatch_def)
qed

subsection \<open>C7: the endpoint writes nothing\<close>

text \<open>
  Claim C7. When the query of an HTTP request holds a URL, the endpoint normalizes that
  article and answers with its summary and the one source, and the vector store after the
  request is the vector store before it. The ingestion listener, given the same URL as a
  message, ends with the parsed article stored under the id of the URL whenever its
  processing succeeds.
\<close>

theorem agentHandler_url_path_stores_nothing:
  assumes "extractUrlFromQuery q = Some u"
  shows "store (snd (agentHandler env w (QString q))) = store w \<and>
         (\<forall>a w1 t.
            processArticle env w u = (Inr a, w1) \<and>
            generateContent env (js ''gemini-1.5-pro'')
              (js ''Summarize this article in 3-4 sentences:'' @ nl @ nl @ toStr (content a))
              = Inr (Inr t) \<longrightarrow>
            agentHandler env w (QString q) =
              (\<lparr>status = 200,
                body = JObj [(''answer'', JStr t), (''sources'', JArr [sourceOf a])]\<rparr>, w1)) \<and>
         (\<forall>msg a n st.
            payload msg = Some u \<and> ingest env (store w) u = (Inr (a, n), st) \<longrightarrow>
            store (snd (eachMessage env w msg)) = st \<and>
            (\<exists>v. st = (store w)(articleId u \<mapsto>
                          \<lparr>vid = articleId u, vvalues = v, metadata = Some a\<rparr>)))"
proof -
  from extractUrlFromQuery_http [OF assms] have u: "u \<noteq> []" "prefix (js ''http'') u" and q: "q \<noteq> []"
    by simp_all
  have "agentHandler env w (QString q) =
          (\<lparr>status = 200,
            body = JObj [(''answer'', JStr t), (''sources'', JArr [sourceOf a])]\<rparr>, w1)"
    if "processArticle env w u = (Inr a, w1)"
      "generateContent env (js ''gemini-1.5-pro'')
         (js ''Summarize this article in 3-4 sentences:'' @ nl @ nl @ toStr (content a))
         = Inr (Inr t)"
    for a w1 t
    using that assms q by (simp add: agentHandler_def bindE_def)
  moreover have "store (snd (eachMessage env w msg)) = st \<and>
      (\<exists>v. st = (store w)(articleId u \<mapsto> \<lparr>vid = articleId u, vvalues = v, metadata = Some a\<rparr>))"
    if "payload msg = Some u" "ingest env (store w) u = (Inr (a, n), st)" for msg a n st
    using eachMessage_success [OF that(1) u that(2)] ingest_stores [OF that(2)] by simp
  ultimately show ?thesis using agentHandler_store [of env w "QString q"] by blast
qed

theorem agentHandler_url_path_stores_nothing_witness:
  "extractUrlFromQuery demoUrlQuery = Some demoUrl \<and>
   store (snd (agentHandler (demoEnv demoWrapped []) emptyWorld (QString demoUrlQuery)))
     = store emptyWorld \<and>
   store (snd (eachMessage (demoEnv demoWrapped []) emptyWorld
                 \<lparr>partition = 0, payload = Some demoUrl\<rparr>)) (articleId demoUrl)
     = Some \<lparr>vid = articleId demoUrl, vvalues = 3,
             metadata = Some \<lparr>title = Some (js ''T''), content = Some (js ''C''),
                               url = Some (js ''https://e.com/1''), date = None\<rparr>\<rparr>"
proof -
  note t = agentHandler_url_path_stores_nothing [OF demoUrlQuery_url,
      of "demoEnv demoWrapped []" emptyWorld]
  have p: "payload \<lparr>partition = 0, payload = Some demoUrl\<rparr> = Some demoUrl" by simp
  from t [THEN conjunct2, THEN conjunct2, rule_format, OF conjI [OF p demoUrl_ingested]]
  have "store (snd (eachMessage (demoEnv demoWrapped []) emptyWorld
                 \<lparr>partition = 0, payload = Some demoUrl\<rparr>))
      = (store emptyWorld)(articleId demoUrl \<mapsto>
           \<lparr>vid = articleId demoUrl, vvalues = 3,
            metadata = Some \<lparr>title = Some (js ''T''), content = Some (js ''C''),
                              url = Some (js ''https://e.com/1''), date = None\<rparr>\<rparr>)"
    by simp
  with t [THEN conjunct1] demoUrlQuery_url show ?thesis by simp
qed

subsection \<open>C8: the listeners swallow errors\<close>

text \<open>
  Claim C8. The per-message handlers of both listeners always resolve: whatever the
  message and whatever the services do, the handler returns normally, so the runtime
  hands over every message of a batch, leaves none for redelivery, and the messages after
  a failing one are processed from the world the failing one left. An error thrown while
  a message is processed ends up in a \<open>console.error\<close> line and nowhere else.
\<close>

theorem listener_swallows_errors:
  "fst (eachMessage env w msg) = Inr () \<and> fst (eachMessageQuery env w msg) = Inr () \<and>
   fst (consumerRun (eachMessage env) w ms) = Inr () \<and>
   snd (snd (consumerRun (eachMessage env) w ms)) = [] \<and>
   fst (consumerRun (eachMessageQuery env) w ms) = Inr () \<and>
   snd (snd (consumerRun (eachMessageQuery env) w ms)) = [] \<and>
   consumerRun (eachMessage env) w (ms @ ms') =
     consumerRun (eachMessage env) (fst (snd (consumerRun (eachMessage env) w ms))) ms' \<and>
   consumerRun (eachMessageQuery env) w (ms @ ms') =
     consumerRun (eachMessageQuery env) (fst (snd (consumerRun (eachMessageQuery env) w ms))) ms' \<and>
   (payload msg = Some u \<and> u \<noteq> [] \<and> prefix (js ''http'') u \<and>
    ingest env (store w) u = (Inl e, st) \<longrightarrow>
      eachMessage env w msg =
        (Inr (),
         logged (ConsoleError [Val (JStr (js ''Failed to process article '' @ u @ js '':'')),
                               if instanceofError e then Val (JStr (message e)) else Thrown e])
           (stored st
              (logged (ConsoleLog [Val (JStr (js ''Processing article URL [Partition '' @
                                     numStr (partition msg) @ js '']: '' @ u))]) w)))) \<and>
   (payload msg = Some q \<and> q \<noteq> [] \<and>
    answerQuery env
      (logged (ConsoleLog [Val (JStr (js ''Processing query [Partition '' @
                             numStr (partition msg) @ js '']: '' @ q))]) w) q = (Inl e, w1) \<longrightarrow>
      eachMessageQuery env w msg =
        (Inr (),
         logged (ConsoleError [Val (JStr (js ''Failed to process query '' @ q @ js '':'')),
                               Thrown e]) w1))"
proof -
  have 1: "fst (consumerRun (eachMessage env) w ms) = Inr () \<and>
      snd (snd (consumerRun (eachMessage env) w ms)) = []"
    by (rule consumerRun_resolving) (rule eachMessage_resolves)
  have 2: "fst (consumerRun (eachMessageQuery env) w ms) = Inr () \<and>
      snd (snd (consumerRun (eachMessageQuery env) w ms)) = []"
    by (rule consumerRun_resolving) (rule eachMessageQuery_resolves)
  have 3: "consumerRun (eachMessage env) w (ms @ ms') =
     consumerRun (eachMessage env) (fst (snd (consumerRun (eachMessage env) w ms))) ms'"
    by (rule consumerRun_append) (rule eachMessage_resolves)
  have 4: "consumerRun (eachMessageQuery env) w (ms @ ms') =
     consumerRun (eachMessageQuery env) (fst (snd (consumerRun (eachMessageQuery env) w ms))) ms'"
    by (rule consumerRun_append) (rule eachMessageQuery_resolves)
  show ?thesis
    using 1 2 3 4 eachMessage_resolves [of env w msg] eachMessageQuery_resolves [of env w msg]
      eachMessage_failure_logged [of msg u env w e st]
      eachMessageQuery_failure_logged [of msg q env w e w1]
    by blast
qed

theorem listener_swallows_errors_witness:
  "payload demoMessage = Some (js ''https://e.com/1'') \<and> js ''https://e.com/1'' \<noteq> [] \<and>
   prefix (js ''http'') (js ''https://e.com/1'') \<and>
   ingest downEnv (store emptyWorld) (js ''https://e.com/1'')
     = (Inl (Error (js ''fetch failed'')), Map.empty) \<and>
   fst (eachMessage downEnv emptyWorld demoMessage) = Inr () \<and>
   console (snd (eachMessage downEnv emptyWorld demoMessage)) =
     [ConsoleLog [Val (JStr (js ''Processing article URL [Partition '' @ numStr 0 @ js '']: '' @
                             js ''https://e.com/1''))],
      ConsoleError [Val (JStr (js ''Failed to process article '' @ js ''https://e.com/1'' @ js '':'')),
                    Val (JStr (js ''fetch failed''))]]"
proof -
  have a: "payload demoMessage = Some (js ''https://e.com/1'')" by (simp add: demoMessage_def)
  have b: "js ''https://e.com/1'' \<noteq> []" and c: "prefix (js ''http'') (js ''https://e.com/1'')"
    by (simp_all add: js_def)
  have d: "ingest downEnv (store emptyWorld) (js ''https://e.com/1'')
     = (Inl (Error (js ''fetch failed'')), Map.empty)"
    by (simp add: ingest_def prepare_def bindE_def downEnv_def emptyWorld_def)
  from listener_swallows_errors [of downEnv emptyWorld demoMessage _ _ "js ''https://e.com/1''"
      "Error (js ''fetch failed'')" Map.empty] a b c d
  have "eachMessage downEnv emptyWorld demoMessage =
        (Inr (),
         logged (ConsoleError [Val (JStr (js ''Failed to process article '' @ js ''https://e.com/1'' @ js '':'')),
                               if instanceofError (Error (js ''fetch failed''))
                               then Val (JStr (message (Error (js ''fetch failed''))))
                               else Thrown (Error (js ''fetch failed''))])
           (stored Map.empty
              (logged (ConsoleLog [Val (JStr (js ''Processing article URL [Partition '' @
                                     numStr (partition demoMessage) @ js '']: '' @ js ''https://e.com/1''))])
                 emptyWorld)))"
    by blast
  then show ?thesis using a b c d by (simp add: emptyWorld_def demoMessage_def)
qed

subsection \<open>C9: the body of a 200 response\<close>

text \<open>
  Claim C9 (amended). Every 200 response of \<open>POST /agent\<close> has the body
  \<open>{answer: string, sources: [...]}\<close> with one element of \<open>sources\<close> for each article (the
  article processed on the URL path, the retrieved articles otherwise). Each element is an
  object whose properties are among \<open>title\<close>, \<open>url\<close> and \<open>date\<close>: it holds each of the
  three that is defined in the article, with the article's string, and leaves out each
  that is undefined. The article's \<open>content\<close> is never part of it.
\<close>

theorem postAgent_ok_body:
  assumes "sentStatus (fst (postAgent env w query)) = 200"
  shows "\<exists>t arts srcs q.
           sentBody (fst (postAgent env w query)) =
             Some (JsonObject [(''answer'', JsonString t), (''sources'', JsonArray srcs)]) \<and>
           query = QString q \<and>
           ((\<exists>u a. extractUrlFromQuery q = Some u \<and> fst (processArticle env w u) = Inr a \<and>
                   arts = [a]) \<or>
            (extractUrlFromQuery q = None \<and> fst (searchArticles env w q 3) = Inr arts)) \<and>
           length srcs = length arts \<and>
           (\<forall>i<length arts. \<exists>ps.
              srcs ! i = JsonObject ps \<and> distinct (map fst ps) \<and>
              set (map fst ps) \<subseteq> {''title'', ''url'', ''date''} \<and>
              map_of ps ''title'' = map_option JsonString (title (arts ! i)) \<and>
              map_of ps ''url'' = map_option JsonString (url (arts ! i)) \<and>
              map_of ps ''date'' = map_option JsonString (date (arts ! i)) \<and>
              map_of ps ''content'' = None)"
proof -
  from agentHandler_200 [OF postAgent_200 [OF assms]] obtain q where
    q: "query = QString q" and
    c: "case extractUrlFromQuery q of
        Some u \<Rightarrow>
          (\<exists>a w1 t. processArticle env w u = (Inr a, w1) \<and>
             agentHandler env w query =
               (\<lparr>status = 200,
                 body = JObj [(''answer'', JStr t), (''sources'', JArr [sourceOf a])]\<rparr>, w1))
      | None \<Rightarrow>
          (\<exists>arts w1 t. searchArticles env w q 3 = (Inr arts, w1) \<and>
             agentHandler env w query =
               (\<lparr>status = 200,
                 body = JObj [(''answer'', JStr t), (''sources'', JArr (map sourceOf arts))]\<rparr>,
                w1))"
    by blast
  have "\<exists>t arts. body (fst (agentHandler env w query)) =
         JObj [(''answer'', JStr t), (''sources'', JArr (map sourceOf arts))] \<and>
       ((\<exists>u a. extractUrlFromQuery q = Some u \<and> fst (processArticle env w u) = Inr a \<and>
                   arts = [a]) \<or>
            (extractUrlFromQuery q = None \<and> fst (searchArticles env w q 3) = Inr arts))"
  proof (cases "extractUrlFromQuery q")
    case None
    with c obtain arts w1 t where "searchArticles env w q 3 = (Inr arts, w1)"
      and "agentHandler env w query =
               (\<lparr>status = 200,
                 body = JObj [(''answer'', JStr t), (''sources'', JArr (map sourceOf arts))]\<rparr>,
                w1)" by auto
    then have "body (fst (agentHandler env w query)) =
         JObj [(''answer'', JStr t), (''sources'', JArr (map sourceOf arts))]"
      and "fst (searchArticles env w q 3) = Inr arts" by simp_all
    with None show ?thesis by blast
  next
    case (Some u)
    with c obtain a w1 t where "processArticle env w u = (Inr a, w1)"
      and "agentHandler env w query =
               (\<lparr>status = 200,
                 body = JObj [(''answer'', JStr t), (''sources'', JArr [sourceOf a])]\<rparr>, w1)"
      by auto
    then have "body (fst (agentHandler env w query)) =
         JObj [(''answer'', JStr t), (''sources'', JArr (map sourceOf [a]))]"
      and "fst (processArticle env w u) = Inr a" by simp_all
    with Some show ?thesis by blast
  qed
  then obtain t arts where
    b: "body (fst (agentHandler env w query)) =
         JObj [(''answer'', JStr t), (''sources'', JArr (map sourceOf arts))]"
    and p: "(\<exists>u a. extractUrlFromQuery q = Some u \<and> fst (processArticle env w u) = Inr a \<and>
                   arts = [a]) \<or>
            (extractUrlFromQuery q = None \<and> fst (searchArticles env w q 3) = Inr arts)"
    by blast
  let ?srcs = "map (\<lambda>a. the (jsonStringify (sourceOf a))) arts"
  from b have s: "sentBody (fst (postAgent env w query)) =
      Some (JsonObject [(''answer'', JsonString t), (''sources'', JsonArray ?srcs)])"
    by (simp add: sentBody_postAgent stringifyElements_sources)
  have e: "\<exists>ps.
              ?srcs ! i = JsonObject ps \<and> distinct (map fst ps) \<and>
              set (map fst ps) \<subseteq> {''title'', ''url'', ''date''} \<and>
              map_of ps ''title'' = map_option JsonString (title (arts ! i)) \<and>
              map_of ps ''url'' = map_option JsonString (url (arts ! i)) \<and>
              map_of ps ''date'' = map_option JsonString (date (arts ! i)) \<and>
              map_of ps ''content'' = None" if "i < length arts" for i
  proof -
    from stringify_source [of "arts ! i"] obtain ps where
      ps: "jsonStringify (sourceOf (arts ! i)) = Some (JsonObject ps)"
        "distinct (map fst ps)" "set (map fst ps) \<subseteq> {''title'', ''url'', ''date''}"
        "map_of ps ''title'' = map_option JsonString (title (arts ! i))"
        "map_of ps ''url'' = map_option JsonString (url (arts ! i))"
        "map_of ps ''date'' = map_option JsonString (date (arts ! i))"
      by blast
    from ps(3) have "''content'' \<notin> fst ` set ps" by auto
    then have "map_of ps ''content'' = None" by (simp add: map_of_eq_None_iff)
    moreover from that ps(1) have "?srcs ! i = JsonObject ps" by simp
    ultimately show ?thesis using ps by blast
  qed
  have "length ?srcs = length arts" by simp
  with s q p e show ?thesis by blast
qed

text \<open>A retrieved article with all four members is listed without its content.\<close>

theorem postAgent_source_without_content_counterexample:
  "content (mapMatch (demoMatch ''1'')) = Some (js ''text'') \<and>
   fst (postAgent (demoEnv demoCited [demoMatch ''1'']) emptyWorld (QString demoQuery))
   = \<lparr>sentStatus = 200,
      sentBody = Some (JsonObject
        [(''answer'', JsonString demoCited),
         (''sources'', JsonArray [JsonObject [(''title'', JsonString (js ''1'')),
                                              (''url'', JsonString (js ''https://e.com/1'')),
                                              (''date'', JsonString (js ''2025-03-30''))]])])\<rparr>"
proof -
  have "demoQuery \<noteq> []" by (simp add: demoQuery_def js_def)
  then show ?thesis
    by (simp add: postAgent_def agentHandler_def demoQuery_no_url searchArticles_def rethrow_def
        bindE_def demoEnv_fields mapMatch_demoMatch contextLine_def substringOf_def
        demoArticle_fields sourceOf_def optVal_def js_def)
qed

text \<open>On the URL path, the article parsed in the examples has no date: its source holds
  the title and the url only.\<close>

theorem postAgent_ok_body_witness:
  "sentStatus (fst (postAgent (demoEnv demoWrapped []) emptyWorld (QString demoUrlQuery))) = 200 \<and>
   sentBody (fst (postAgent (demoEnv demoWrapped []) emptyWorld (QString demoUrlQuery)))
     = Some (JsonObject
         [(''answer'', JsonString demoWrapped),
          (''sources'', JsonArray [JsonObject [(''title'', JsonString (js ''T'')),
                                               (''url'', JsonString (js ''https://e.com/1''))]])]) \<and>
   (\<exists>t arts srcs q.
      sentBody (fst (postAgent (demoEnv demoWrapped []) emptyWorld (QString demoUrlQuery))) =
        Some (JsonObject [(''answer'', JsonString t), (''sources'', JsonArray srcs)]) \<and>
      QString demoUrlQuery = QString q \<and>
      ((\<exists>u a. extractUrlFromQuery q = Some u \<and>
              fst (processArticle (demoEnv demoWrapped []) emptyWorld u) = Inr a \<and> arts = [a]) \<or>
       (extractUrlFromQuery q = None \<and>
        fst (searchArticles (demoEnv demoWrapped []) emptyWorld q 3) = Inr arts)) \<and>
      length srcs = length arts \<and>
      (\<forall>i<length arts. \<exists>ps.
         srcs ! i = JsonObject ps \<and> distinct (map fst ps) \<and>
         set (map fst ps) \<subseteq> {''title'', ''url'', ''date''} \<and>
         map_of ps ''title'' = map_option JsonString (title (arts ! i)) \<and>
         map_of ps ''url'' = map_option JsonString (url (arts ! i)) \<and>
         map_of ps ''date'' = map_option JsonString (date (arts ! i)) \<and>
         map_of ps ''content'' = None))"
proof -
  have r: "fst (postAgent (demoEnv demoWrapped []) emptyWorld (QString demoUrlQuery))
      = \<lparr>sentStatus = 200,
         sentBody = Some (JsonObject
           [(''answer'', JsonString demoWrapped),
            (''sources'', JsonArray [JsonObject [(''title'', JsonString (js ''T'')),
                                                 (''url'', JsonString (js ''https://e.com/1''))]])])\<rparr>"
    by (simp add: postAgent_def demoUrlQuery_handled sourceOf_def optVal_def)
  then have s: "sentStatus (fst (postAgent (demoEnv demoWrapped []) emptyWorld (QString demoUrlQuery))) = 200"
    by simp
  from postAgent_ok_body [OF s] r show ?thesis by simp
qed

subsection \<open>C10: the URL detector\<close>

text \<open>
  Claim C10 (amended). The URL detector returns the first maximal run of non-whitespace
  characters that begins with \<open>http://\<close> or \<open>https://\<close> followed by at least one
  non-whitespace character, and null when the query holds no such run. The endpoint
  processes that one URL only.
\<close>

theorem extractUrlFromQuery_firstUrl: "extractUrlFromQuery q = firstUrl q"
proof -
  have "extractUrlFromQuery q =
    (case regexSearch urlRegex q of
      None \<Rightarrow> None
    | Some (k, caps, rest) \<Rightarrow> Some (take (length q - k - length rest) (drop k q)))"
    by (rule extractUrlFromQuery_search)
  then show ?thesis by (simp only: regexSearch_urlRegex)
qed

theorem extractUrlFromQuery_bare_scheme_counterexample:
  "extractUrlFromQuery (js ''see http:// and https://b.c'') = Some (js ''https://b.c'') \<and>
   firstSchemeRun (js ''see http:// and https://b.c'') = Some (js ''http://'') \<and>
   extractUrlFromQuery (js ''http://'') = None \<and>
   firstSchemeRun (js ''http://'') = Some (js ''http://'')"
  by code_simp

end
